theory Spec2Isabelle
  imports Complex_Main "HOL-Library.Sublist" "HOL-Library.AList"
begin

section \<open>PostgreSQL backup orchestration (pg\_backup\_main.py)\<close>

text \<open>
  A shallow embedding of the class \<open>PostgreSQLBackup\<close> of \<open>pg_backup_main.py\<close>.
  The attributes of the object that the methods mutate (\<open>errors\<close>, \<open>warnings\<close>,
  \<open>failed_uploads\<close>, the lock attributes) are fields of a state record that every
  method takes and returns. What the methods ask of the operating system, of PostgreSQL
  and of Azure is answered by an environment record, so that every outcome the code
  distinguishes is a branch of the model.

  Python strings are modelled as \<open>string\<close>; a \<open>char\<close> stands for a code point below
  256. Among those the regular expression class \<open>\d\<close> is exactly \<open>0\<close> to \<open>9\<close>.
  Method names lose their leading underscore, which an Isabelle name cannot have.
\<close>

subsection \<open>Constants\<close>

definition BACKUP_DIR :: string where
  "BACKUP_DIR = ''/var/backups/pgbackup''"

definition TEMP_DIR :: string where
  "TEMP_DIR = BACKUP_DIR @ ''/tmp''"

definition LOCK_FILE :: string where
  "LOCK_FILE = BACKUP_DIR @ ''/pgbackup.lock''"

definition FALLBACK_LOCK :: string where
  "FALLBACK_LOCK = ''/tmp/pgbackup.lock''"

definition RETENTION_DAYS :: int where
  "RETENTION_DAYS = 365"

definition LOCAL_RETENTION_DAYS :: int where
  "LOCAL_RETENTION_DAYS = 7"

definition MIN_DISK_SPACE_MB :: int where
  "MIN_DISK_SPACE_MB = 1024"

definition MAX_UPLOAD_RETRIES :: int where
  "MAX_UPLOAD_RETRIES = 3"

subsection \<open>Characters\<close>

text \<open>Code points: \<open>0\<close>-\<open>9\<close> are 48-57, \<open>A\<close>-\<open>Z\<close> 65-90, \<open>a\<close>-\<open>z\<close> 97-122,
  \<open>_\<close> is 95 and \<open>-\<close> is 45.\<close>

definition code_point :: "char \<Rightarrow> nat" where
  "code_point c = of_char c"

definition is_digit :: "char \<Rightarrow> bool" where
  "is_digit c = (48 \<le> code_point c \<and> code_point c \<le> 57)"

definition is_letter :: "char \<Rightarrow> bool" where
  "is_letter c = ((65 \<le> code_point c \<and> code_point c \<le> 90) \<or>
                  (97 \<le> code_point c \<and> code_point c \<le> 122))"

text \<open>The class \<open>[a-zA-Z0-9_-]\<close> of the sanitizer.\<close>

definition filename_safe :: "char \<Rightarrow> bool" where
  "filename_safe c = (is_letter c \<or> is_digit c \<or> c = CHR ''_'' \<or> c = CHR ''-'')"

subsection \<open>Messages and the state of a run\<close>

text \<open>The entries of \<open>self.errors\<close> and \<open>self.warnings\<close>. The code builds them as
  formatted strings; the model keeps which message it is and the values formatted into it.\<close>

datatype message =
    InsufficientDiskSpace int int
  | CannotAcquireLock
  | BackupAlreadyInProgress
  | DiskSpaceAborted
  | NoDatabasesFound
  | AzureCredentialsNotConfigured
  | AzureKeyValidationFailed
  | AzureClientCreationFailed
  | AzureUploadError string
  | UploadError string
  | AzureCleanupError string
  | Reported string

text \<open>One value of the dictionary \<open>failed_uploads\<close>; times are microseconds.\<close>

record upload_info =
  first_failure :: int
  retry_count :: int
  last_attempt :: int

text \<open>What a run does to the outside world, in order.\<close>

datatype event =
    LockTried string
  | DiskProbed
  | HealthChecked
  | RetryPassRun
  | UploadTried string bool
  | DatabasesListed
  | PreMaintenance string
  | Dumped string
  | PostMaintenance string
  | RemoteSwept
  | LocalSwept
  | NotificationSent nat nat
  | LockReleased string

text \<open>
  \<open>failed_uploads\<close> is a Python dictionary: an association list in insertion order.
  \<open>files\<close> is the local file system (path and modification time), \<open>blobs\<close> the remote
  container, \<open>lock_file\<close> the path of the open lock file object when the attribute is set.
\<close>

record backup_state =
  errors :: "message list"
  warnings :: "message list"
  failed_uploads :: "(string \<times> upload_info) list"
  files :: "(string \<times> int) list"
  blobs :: "string list"
  lock_file :: "string option"
  actual_lock_file :: string
  events :: "event list"

definition log_event :: "event \<Rightarrow> backup_state \<Rightarrow> backup_state" where
  "log_event e st = st\<lparr>events := events st @ [e]\<rparr>"

definition add_error :: "message \<Rightarrow> backup_state \<Rightarrow> backup_state" where
  "add_error m st = st\<lparr>errors := errors st @ [m]\<rparr>"

definition add_warning :: "message \<Rightarrow> backup_state \<Rightarrow> backup_state" where
  "add_warning m st = st\<lparr>warnings := warnings st @ [m]\<rparr>"

subsection \<open>\<open>_sanitize_filename\<close>\<close>

text \<open>\<open>re.sub(r'[^a-zA-Z0-9_-]', '_', name)\<close> followed by \<open>[:50]\<close>.\<close>

definition sanitize_filename :: "string \<Rightarrow> string" where
  "sanitize_filename name =
     take 50 (map (\<lambda>c. if filename_safe c then c else CHR ''_'') name)"

subsection \<open>\<open>_check_disk_space\<close>\<close>

text \<open>
  \<open>probe\<close> is what \<open>shutil.disk_usage\<close> gives: the free bytes, or \<open>None\<close> when it
  raises. \<open>free_mb\<close> is the quotient \<open>stat.free / (1024 * 1024)\<close>; Python compares the
  float with the integer \<open>required_mb\<close> by value, and the quotient is exact for every
  volume below \<open>2 ^ 53\<close> bytes, so the comparison is modelled on the rationals.
  The function returns the answer and the state.
\<close>

definition free_mb :: "int \<Rightarrow> rat" where
  "free_mb free = of_int free / (1024 * 1024)"

definition check_disk_space ::
  "int option \<Rightarrow> int \<Rightarrow> bool \<Rightarrow> backup_state \<Rightarrow> bool \<times> backup_state" where
  "check_disk_space probe required_mb warn_only st =
     (let st1 = log_event DiskProbed st in
      case probe of
        None \<Rightarrow> (True, st1)
      | Some free \<Rightarrow>
          if free_mb free < of_int required_mb then
            (if warn_only
             then (True, add_warning (InsufficientDiskSpace free required_mb) st1)
             else (False, add_error (InsufficientDiskSpace free required_mb) st1))
          else (True, st1))"

subsection \<open>\<open>_acquire_lock\<close> and \<open>_release_lock\<close>\<close>

text \<open>
  An exception of the classes \<open>IOError\<close>, \<open>OSError\<close>, \<open>PermissionError\<close>: whether it
  is an instance of \<open>PermissionError\<close>, and its \<open>str\<close>. The lock held by another
  process makes \<open>flock\<close> raise \<open>BlockingIOError\<close> with the text of \<open>EAGAIN\<close>.
\<close>

record os_error =
  is_permission_error :: bool
  error_text :: string

definition lock_contention :: os_error where
  "lock_contention =
     \<lparr>is_permission_error = False,
      error_text = ''[Errno 11] Resource temporarily unavailable''\<rparr>"

text \<open>
  One attempt on a lock path (\<open>open\<close>, \<open>flock\<close>, write of the process id):
  it succeeds, or \<open>mkdir\<close>/\<open>open\<close> raises before \<open>self.lock_file\<close> is assigned, or
  \<open>flock\<close> or the write raises after it.
\<close>

datatype lock_attempt = Locked | OpenRaised os_error | FlockRaised os_error

text \<open>\<open>"Permission denied" in str(e) or isinstance(e, PermissionError)\<close>\<close>

definition permission_condition :: "os_error \<Rightarrow> bool" where
  "permission_condition e = (sublist ''Permission denied'' (error_text e) \<or> is_permission_error e)"

subsection \<open>Time\<close>

text \<open>A naive \<open>datetime\<close>. Python keeps the fields within their ranges.\<close>

record datetime =
  year :: nat
  month :: nat
  day :: nat
  hour :: nat
  minute :: nat
  second :: nat
  microsecond :: nat

definition is_leap :: "nat \<Rightarrow> bool" where
  "is_leap y = (y mod 4 = 0 \<and> (y mod 100 \<noteq> 0 \<or> y mod 400 = 0))"

definition days_in_month :: "nat \<Rightarrow> nat \<Rightarrow> nat" where
  "days_in_month y m =
     (if m = 2 then (if is_leap y then 29 else 28)
      else if m = 4 \<or> m = 6 \<or> m = 9 \<or> m = 11 then 30 else 31)"

definition valid_datetime :: "datetime \<Rightarrow> bool" where
  "valid_datetime t =
     (1 \<le> year t \<and> year t \<le> 9999 \<and> 1 \<le> month t \<and> month t \<le> 12 \<and>
      1 \<le> day t \<and> day t \<le> days_in_month (year t) (month t) \<and>
      hour t < 24 \<and> minute t < 60 \<and> second t < 60 \<and> microsecond t < 1000000)"

text \<open>The proleptic Gregorian ordinal of a date (\<open>date.toordinal\<close>): day 1 is 0001-01-01.\<close>

definition days_before_year :: "nat \<Rightarrow> nat" where
  "days_before_year y = (y - 1) * 365 + (y - 1) div 4 - (y - 1) div 100 + (y - 1) div 400"

definition days_before_month :: "nat \<Rightarrow> nat \<Rightarrow> nat" where
  "days_before_month y m = sum_list (map (days_in_month y) [1..<m])"

definition toordinal :: "datetime \<Rightarrow> nat" where
  "toordinal t = days_before_year (year t) + days_before_month (year t) (month t) + day t"

definition DAY_US :: int where
  "DAY_US = 86400000000"

text \<open>
  A \<open>datetime\<close> as microseconds since the start of day 0, so that \<open><\<close> on \<open>datetime\<close> is
  \<open><\<close> on integers and \<open>t - timedelta(days=n)\<close> is the subtraction of \<open>n * DAY_US\<close>.
\<close>

definition to_us :: "datetime \<Rightarrow> int" where
  "to_us t = int (toordinal t) * DAY_US +
             int (((hour t * 60 + minute t) * 60 + second t) * 1000000 + microsecond t)"

subsection \<open>Formatting and parsing decimal fields\<close>

definition digit_char :: "nat \<Rightarrow> char" where
  "digit_char d = char_of (48 + d)"

definition digit_val :: "char \<Rightarrow> nat" where
  "digit_val c = code_point c - 48"

text \<open>The \<open>w\<close> low decimal digits of \<open>n\<close>: the zero-padded field of \<open>strftime\<close> for a
  value below \<open>10 ^ w\<close>, which the fields of a \<open>datetime\<close> are.\<close>

fun fixed_digits :: "nat \<Rightarrow> nat \<Rightarrow> string" where
  "fixed_digits 0 n = []"
| "fixed_digits (Suc w) n = fixed_digits w (n div 10) @ [digit_char (n mod 10)]"

definition int_of_digits :: "string \<Rightarrow> nat" where
  "int_of_digits s = foldl (\<lambda>a c. 10 * a + digit_val c) 0 s"

text \<open>\<open>strftime('%Y%m%d_%H%M%S_%f')\<close>\<close>

definition strftime_date :: "datetime \<Rightarrow> string" where
  "strftime_date t = fixed_digits 4 (year t) @ fixed_digits 2 (month t) @ fixed_digits 2 (day t)"

definition strftime_stamp :: "datetime \<Rightarrow> string" where
  "strftime_stamp t =
     strftime_date t @ ''_'' @
     fixed_digits 2 (hour t) @ fixed_digits 2 (minute t) @ fixed_digits 2 (second t) @ ''_'' @
     fixed_digits 6 (microsecond t)"

text \<open>
  \<open>datetime.strptime(date_str, '%Y%m%d')\<close> on the eight digits the sweep hands it: four
  digits of year, two of month, two of day; \<open>ValueError\<close> (here \<open>None\<close>) when the month is
  not 01-12, the day is not 01-31, or the date does not exist (year 0, day beyond the
  month's length).
\<close>

definition strptime_Ymd :: "string \<Rightarrow> datetime option" where
  "strptime_Ymd s =
     (let y = int_of_digits (take 4 s);
          m = int_of_digits (take 2 (drop 4 s));
          d = int_of_digits (drop 6 s)
      in if 1 \<le> y \<and> 1 \<le> m \<and> m \<le> 12 \<and> 1 \<le> d \<and> d \<le> days_in_month y m
         then Some \<lparr>year = y, month = m, day = d, hour = 0, minute = 0, second = 0,
                     microsecond = 0\<rparr>
         else None)"

subsection \<open>The environment of a run\<close>

datatype failure = AzureError string | OtherException string

datatype delete_result = Deleted | DeleteValueError | DeleteRaised string

text \<open>
  \<open>disk_free\<close> answers \<open>shutil.disk_usage\<close> (before the run for \<open>None\<close>, before the dump
  of a database for \<open>Some db\<close>); \<open>now\<close> is the clock of the run, \<open>dump_time\<close> the clock
  when the artifact of a database is named. \<open>credentials_configured\<close>, \<open>key_is_base64\<close>
  and \<open>client_created\<close> are what the configuration makes of the three checks before any
  network call; \<open>blob_upload\<close> is what creating the container and uploading raise.
  \<open>db_listing\<close> is \<open>get_databases\<close>: an error, or the validated names.
\<close>

record environment =
  primary_lock :: lock_attempt
  fallback_lock :: lock_attempt
  disk_free :: "string option \<Rightarrow> int option"
  health_issues :: "message list"
  now :: datetime
  credentials_configured :: bool
  key_is_base64 :: bool
  client_created :: bool
  blob_upload :: "string \<Rightarrow> failure option"
  db_listing :: "message + string list"
  pre_maintenance :: "string \<Rightarrow> message list"
  dump_time :: "string \<Rightarrow> datetime"
  dump_result :: "string \<Rightarrow> message option"
  post_maintenance :: "string \<Rightarrow> message list"
  list_blobs_error :: "string option"
  delete_blob :: "string \<Rightarrow> delete_result"
  unlink_ok :: "string \<Rightarrow> bool"
  notify_on_warnings :: bool

definition acquire_lock :: "environment \<Rightarrow> backup_state \<Rightarrow> bool \<times> backup_state" where
  "acquire_lock env st =
     (let st1 = log_event (LockTried LOCK_FILE) (st\<lparr>actual_lock_file := LOCK_FILE\<rparr>);
          opened = (\<lambda>a p s. case a of OpenRaised _ \<Rightarrow> s | _ \<Rightarrow> s\<lparr>lock_file := Some p\<rparr>);
          raised = (\<lambda>a. case a of Locked \<Rightarrow> None | OpenRaised e \<Rightarrow> Some e
                                  | FlockRaised e \<Rightarrow> Some e);
          st2 = opened (primary_lock env) LOCK_FILE st1
      in case raised (primary_lock env) of
           None \<Rightarrow> (True, st2)
         | Some e \<Rightarrow>
             if permission_condition e then
               (let st3 = opened (fallback_lock env) FALLBACK_LOCK
                            (log_event (LockTried FALLBACK_LOCK) st2)
                in case raised (fallback_lock env) of
                     None \<Rightarrow> (True, st3\<lparr>actual_lock_file := FALLBACK_LOCK\<rparr>)
                   | Some e2 \<Rightarrow> (False, add_error CannotAcquireLock st3))
             else (False, add_error BackupAlreadyInProgress st2))"

definition release_lock :: "backup_state \<Rightarrow> backup_state" where
  "release_lock st =
     (case lock_file st of
        None \<Rightarrow> st
      | Some p \<Rightarrow> log_event (LockReleased (actual_lock_file st)) st)"

subsection \<open>The ledger of failed uploads\<close>

text \<open>
  \<open>_mark_upload_failed\<close>: a new key is appended with \<open>retry_count\<close> 0, an existing entry
  has its count incremented in place. The ledger is written to its file after every
  change; the model keeps the dictionary, which the next run reads back.
\<close>

definition mark_upload_failed :: "environment \<Rightarrow> string \<Rightarrow> backup_state \<Rightarrow> backup_state" where
  "mark_upload_failed env backup_file st =
     (case map_of (failed_uploads st) backup_file of
        None \<Rightarrow>
          st\<lparr>failed_uploads := AList.update backup_file
                \<lparr>first_failure = to_us (now env), retry_count = 0,
                 last_attempt = to_us (now env)\<rparr> (failed_uploads st)\<rparr>
      | Some info \<Rightarrow>
          st\<lparr>failed_uploads := AList.update backup_file
                (info\<lparr>retry_count := retry_count info + 1, last_attempt := to_us (now env)\<rparr>)
                (failed_uploads st)\<rparr>)"

definition mark_upload_success :: "string \<Rightarrow> backup_state \<Rightarrow> backup_state" where
  "mark_upload_success backup_file st =
     (if map_of (failed_uploads st) backup_file \<noteq> None
      then st\<lparr>failed_uploads := AList.delete backup_file (failed_uploads st)\<rparr>
      else st)"

definition file_exists :: "backup_state \<Rightarrow> string \<Rightarrow> bool" where
  "file_exists st p = (p \<in> set (map fst (files st)))"

definition should_retry_upload :: "string \<Rightarrow> backup_state \<Rightarrow> bool \<times> backup_state" where
  "should_retry_upload backup_file st =
     (case map_of (failed_uploads st) backup_file of
        None \<Rightarrow> (False, st)
      | Some info \<Rightarrow>
          if retry_count info \<ge> MAX_UPLOAD_RETRIES then (False, st)
          else if \<not> file_exists st backup_file
          then (False, st\<lparr>failed_uploads := AList.delete backup_file (failed_uploads st)\<rparr>)
          else (True, st))"

subsection \<open>\<open>upload_to_azure\<close>\<close>

text \<open>\<open>Path.name\<close>: what follows the last slash.\<close>

definition path_name :: "string \<Rightarrow> string" where
  "path_name p = rev (takeWhile (\<lambda>c. c \<noteq> CHR ''/'') (rev p))"

text \<open>\<open>upload_blob(data, overwrite=True)\<close>: the blob exists afterwards, once.\<close>

definition store_blob :: "string \<Rightarrow> backup_state \<Rightarrow> backup_state" where
  "store_blob name st = (if name \<in> set (blobs st) then st else st\<lparr>blobs := blobs st @ [name]\<rparr>)"

definition upload_to_azure ::
  "environment \<Rightarrow> string \<Rightarrow> bool \<Rightarrow> backup_state \<Rightarrow> bool \<times> backup_state" where
  "upload_to_azure env backup_file is_retry st =
     (let st1 = log_event (UploadTried backup_file is_retry) st;
          mark = (\<lambda>s. if \<not> is_retry then mark_upload_failed env backup_file s else s)
      in if \<not> credentials_configured env then
           (False, mark (add_error AzureCredentialsNotConfigured st1))
         else if \<not> key_is_base64 env then
           (False, mark (add_error AzureKeyValidationFailed st1))
         else if \<not> client_created env then
           (False, mark (add_error AzureClientCreationFailed st1))
         else case blob_upload env backup_file of
           None \<Rightarrow> (True, mark_upload_success backup_file (store_blob (path_name backup_file) st1))
         | Some (AzureError text) \<Rightarrow>
             (if \<not> is_retry
              then (False, mark_upload_failed env backup_file (add_error (AzureUploadError text) st1))
              else (False, st1))
         | Some (OtherException text) \<Rightarrow>
             (if \<not> is_retry
              then (False, mark_upload_failed env backup_file (add_error (UploadError text) st1))
              else (False, st1)))"

subsection \<open>\<open>retry_failed_uploads\<close>\<close>

text \<open>The body of the loop over the snapshot of the keys; the accumulator is the pair of
  counters and the state.\<close>

definition retry_one ::
  "environment \<Rightarrow> string \<Rightarrow> (nat \<times> nat) \<times> backup_state \<Rightarrow> (nat \<times> nat) \<times> backup_state" where
  "retry_one env file_str acc =
     (case acc of ((successful, failed), st) \<Rightarrow>
        (case should_retry_upload file_str st of
           (False, st1) \<Rightarrow> ((successful, failed), st1)
         | (True, st1) \<Rightarrow>
             if \<not> file_exists st1 file_str then
               ((successful, failed),
                (if map_of (failed_uploads st1) file_str \<noteq> None
                 then st1\<lparr>failed_uploads := AList.delete file_str (failed_uploads st1)\<rparr>
                 else st1))
             else
               (case upload_to_azure env file_str True st1 of
                  (True, st2) \<Rightarrow> ((successful + 1, failed), st2)
                | (False, st2) \<Rightarrow> ((successful, failed + 1), st2))))"

fun retry_loop ::
  "environment \<Rightarrow> string list \<Rightarrow> (nat \<times> nat) \<times> backup_state \<Rightarrow> (nat \<times> nat) \<times> backup_state" where
  "retry_loop env [] acc = acc"
| "retry_loop env (file_str # rest) acc = retry_loop env rest (retry_one env file_str acc)"

definition retry_failed_uploads :: "environment \<Rightarrow> backup_state \<Rightarrow> (nat \<times> nat) \<times> backup_state" where
  "retry_failed_uploads env st =
     (if failed_uploads st = [] then ((0, 0), st)
      else retry_loop env (map fst (failed_uploads st)) ((0, 0), st))"

subsection \<open>\<open>cleanup_local_backups\<close>\<close>

text \<open>\<open>Path(d).glob('*' + ending)\<close>: the entries of directory \<open>d\<close> whose name ends so.\<close>

definition in_directory :: "string \<Rightarrow> string \<Rightarrow> bool" where
  "in_directory d p =
     (prefix (d @ ''/'') p \<and> drop (length d + 1) p \<noteq> [] \<and>
      CHR ''/'' \<notin> set (drop (length d + 1) p))"

definition glob_matches :: "string \<Rightarrow> string \<Rightarrow> string \<Rightarrow> bool" where
  "glob_matches d ending p = (in_directory d p \<and> suffix ending (drop (length d + 1) p))"

definition glob :: "string \<Rightarrow> string \<Rightarrow> backup_state \<Rightarrow> (string \<times> int) list" where
  "glob d ending st = filter (\<lambda>(p, t). glob_matches d ending p) (files st)"

definition unlink :: "string \<Rightarrow> backup_state \<Rightarrow> backup_state" where
  "unlink p st = st\<lparr>files := filter (\<lambda>(q, t). q \<noteq> p) (files st)\<rparr>"

text \<open>The leftover temporary files: each is removed unless \<open>unlink\<close> raises.\<close>

fun cleanup_temp :: "environment \<Rightarrow> (string \<times> int) list \<Rightarrow> backup_state \<Rightarrow> backup_state" where
  "cleanup_temp env [] st = st"
| "cleanup_temp env ((p, t) # rest) st =
     cleanup_temp env rest (if unlink_ok env p then unlink p st else st)"

text \<open>
  The body of the loop over the artifacts, for the artifact \<open>p\<close> with modification time
  \<open>t\<close>. An \<open>unlink\<close> that raises leaves the file, the ledger and the counter as they were.
\<close>

definition cleanup_one ::
  "environment \<Rightarrow> int \<Rightarrow> string \<times> int \<Rightarrow> nat \<times> backup_state \<Rightarrow> nat \<times> backup_state" where
  "cleanup_one env cutoff_date entry acc =
     (case (entry, acc) of ((p, t), (deleted_count, st)) \<Rightarrow>
        if path_name p = ''.failed_uploads.json'' then (deleted_count, st)
        else
          (let is_failed_upload = (map_of (failed_uploads st) p \<noteq> None) in
           if t < cutoff_date \<and> \<not> is_failed_upload then
             (if unlink_ok env p then (deleted_count + 1, unlink p st) else (deleted_count, st))
           else if is_failed_upload then
             (case map_of (failed_uploads st) p of
                None \<Rightarrow> (deleted_count, st)
              | Some upload_info \<Rightarrow>
                  if retry_count upload_info \<ge> MAX_UPLOAD_RETRIES then
                    (if unlink_ok env p
                     then (deleted_count + 1,
                           (unlink p st)\<lparr>failed_uploads := AList.delete p (failed_uploads st)\<rparr>)
                     else (deleted_count, st))
                  else (deleted_count, st))
           else (deleted_count, st)))"

fun cleanup_loop ::
  "environment \<Rightarrow> int \<Rightarrow> (string \<times> int) list \<Rightarrow> nat \<times> backup_state \<Rightarrow> nat \<times> backup_state" where
  "cleanup_loop env cutoff_date [] acc = acc"
| "cleanup_loop env cutoff_date (entry # rest) acc =
     cleanup_loop env cutoff_date rest (cleanup_one env cutoff_date entry acc)"

definition local_cutoff :: "environment \<Rightarrow> int" where
  "local_cutoff env = to_us (now env) - LOCAL_RETENTION_DAYS * DAY_US"

definition cleanup_local_backups :: "environment \<Rightarrow> backup_state \<Rightarrow> nat \<times> backup_state" where
  "cleanup_local_backups env st =
     (let st1 = cleanup_temp env (glob TEMP_DIR ''.sql'' st) st
      in cleanup_loop env (local_cutoff env) (glob BACKUP_DIR ''.sql.gz'' st1) (0, st1))"

subsection \<open>\<open>cleanup_old_backups_azure\<close>\<close>

text \<open>
  Whether \<open>_(\d{8})_\d{6}_\d+\.sql\.gz$\<close> matches at the start of \<open>s\<close>, and the group if
  it does. The greedy \<open>\d+\<close> takes the whole run of digits: the character after it must
  be the dot. \<open>$\<close> matches at the end of the string and before a newline that ends it.
\<close>

definition stamp_match_at :: "string \<Rightarrow> string option" where
  "stamp_match_at s =
     (let tail = dropWhile is_digit (drop 17 s) in
      if take 1 s = ''_'' \<and>
         length (take 8 (drop 1 s)) = 8 \<and> list_all is_digit (take 8 (drop 1 s)) \<and>
         take 1 (drop 9 s) = ''_'' \<and>
         length (take 6 (drop 10 s)) = 6 \<and> list_all is_digit (take 6 (drop 10 s)) \<and>
         take 1 (drop 16 s) = ''_'' \<and>
         takeWhile is_digit (drop 17 s) \<noteq> [] \<and>
         (tail = ''.sql.gz'' \<or> tail = ''.sql.gz'' @ [CHR 0x0A])
      then Some (take 8 (drop 1 s)) else None)"

text \<open>\<open>re.search\<close>: the match at the leftmost position that has one.\<close>

fun re_search :: "string \<Rightarrow> string option" where
  "re_search [] = stamp_match_at []"
| "re_search (c # cs) =
     (case stamp_match_at (c # cs) of Some g \<Rightarrow> Some g | None \<Rightarrow> re_search cs)"

definition remote_cutoff :: "environment \<Rightarrow> int" where
  "remote_cutoff env = to_us (now env) - RETENTION_DAYS * DAY_US"

text \<open>
  The date of a blob name when both the pattern and \<open>strptime\<close> accept it; \<open>None\<close> is the
  blob that is logged and skipped.
\<close>

definition blob_date :: "string \<Rightarrow> datetime option" where
  "blob_date name = (case re_search name of None \<Rightarrow> None | Some date_str \<Rightarrow> strptime_Ymd date_str)"

definition remove_blob :: "string \<Rightarrow> backup_state \<Rightarrow> backup_state" where
  "remove_blob name st = st\<lparr>blobs := filter (\<lambda>b. b \<noteq> name) (blobs st)\<rparr>"

text \<open>
  The loop over the listed blobs. The result is the message of the exception that left
  the loop, if one did, the counter and the state. A \<open>ValueError\<close> from the deletion is
  caught with those of the parsing and the loop goes on.
\<close>

fun sweep_blobs ::
  "environment \<Rightarrow> int \<Rightarrow> string list \<Rightarrow> nat \<times> backup_state \<Rightarrow> string option \<times> nat \<times> backup_state" where
  "sweep_blobs env cutoff_date [] (deleted_count, st) = (None, deleted_count, st)"
| "sweep_blobs env cutoff_date (name # rest) (deleted_count, st) =
     (case blob_date name of
        None \<Rightarrow> sweep_blobs env cutoff_date rest (deleted_count, st)
      | Some d \<Rightarrow>
          if to_us d < cutoff_date then
            (case delete_blob env name of
               Deleted \<Rightarrow> sweep_blobs env cutoff_date rest (deleted_count + 1, remove_blob name st)
             | DeleteValueError \<Rightarrow> sweep_blobs env cutoff_date rest (deleted_count, st)
             | DeleteRaised text \<Rightarrow> (Some text, deleted_count, st))
          else sweep_blobs env cutoff_date rest (deleted_count, st))"

definition cleanup_old_backups_azure :: "environment \<Rightarrow> backup_state \<Rightarrow> nat \<times> backup_state" where
  "cleanup_old_backups_azure env st =
     (if \<not> credentials_configured env then (0, st)
      else if \<not> key_is_base64 env then (0, st)
      else if \<not> client_created env then (0, st)
      else case list_blobs_error env of
        Some text \<Rightarrow> (0, add_error (AzureCleanupError text) st)
      | None \<Rightarrow>
          (case sweep_blobs env (remote_cutoff env) (blobs st) (0, st) of
             (None, deleted_count, st1) \<Rightarrow> (deleted_count, st1)
           | (Some text, deleted_count, st1) \<Rightarrow>
               (deleted_count, add_error (AzureCleanupError text) st1)))"

subsection \<open>\<open>backup_database\<close>\<close>

text \<open>The name and the path of the artifact of database \<open>db_name\<close> made at time \<open>t\<close>.\<close>

definition backup_file_name :: "string \<Rightarrow> datetime \<Rightarrow> string" where
  "backup_file_name db_name t = sanitize_filename db_name @ ''_'' @ strftime_stamp t @ ''.sql.gz''"

definition backup_file_path :: "string \<Rightarrow> datetime \<Rightarrow> string" where
  "backup_file_path db_name t = BACKUP_DIR @ ''/'' @ backup_file_name db_name t"

text \<open>
  The soft disk check, then the dump and the compression, which the environment answers:
  an error message (nothing is left on disk), or success (the artifact is written).
\<close>

definition backup_database :: "environment \<Rightarrow> string \<Rightarrow> backup_state \<Rightarrow> string option \<times> backup_state" where
  "backup_database env db_name st =
     (let st1 = snd (check_disk_space (disk_free env (Some db_name)) (MIN_DISK_SPACE_MB * 2) True st);
          backup_file = backup_file_path db_name (dump_time env db_name);
          st2 = log_event (Dumped db_name) st1
      in case dump_result env db_name of
           Some m \<Rightarrow> (None, add_error m st2)
         | None \<Rightarrow>
             (Some backup_file,
              st2\<lparr>files := AList.update backup_file (to_us (dump_time env db_name)) (files st2)\<rparr>))"

subsection \<open>\<open>run_backup_procedure\<close>\<close>

definition send_final_notification :: "nat \<Rightarrow> nat \<Rightarrow> backup_state \<Rightarrow> backup_state" where
  "send_final_notification successful failed st = log_event (NotificationSent successful failed) st"

definition extend_warnings :: "message list \<Rightarrow> backup_state \<Rightarrow> backup_state" where
  "extend_warnings ms st = st\<lparr>warnings := warnings st @ ms\<rparr>"

text \<open>The body of the loop over the databases; the accumulator holds the counters
  \<open>successful_backups\<close>, \<open>failed_backups\<close> and the state.\<close>

definition process_database ::
  "environment \<Rightarrow> string \<Rightarrow> (nat \<times> nat) \<times> backup_state \<Rightarrow> (nat \<times> nat) \<times> backup_state" where
  "process_database env db_name acc =
     (case acc of ((successful_backups, failed_backups), st) \<Rightarrow>
        (let st1 = extend_warnings (pre_maintenance env db_name)
                     (log_event (PreMaintenance db_name) st)
         in case backup_database env db_name st1 of
              (None, st2) \<Rightarrow> ((successful_backups, failed_backups + 1), st2)
            | (Some backup_file, st2) \<Rightarrow>
                (case upload_to_azure env backup_file False st2 of
                   (True, st3) \<Rightarrow>
                     ((successful_backups + 1, failed_backups),
                      extend_warnings (post_maintenance env db_name)
                        (log_event (PostMaintenance db_name) st3))
                 | (False, st3) \<Rightarrow> ((successful_backups, failed_backups + 1), st3))))"

fun database_loop ::
  "environment \<Rightarrow> string list \<Rightarrow> (nat \<times> nat) \<times> backup_state \<Rightarrow> (nat \<times> nat) \<times> backup_state" where
  "database_loop env [] acc = acc"
| "database_loop env (db_name # rest) acc = database_loop env rest (process_database env db_name acc)"

definition get_databases :: "environment \<Rightarrow> backup_state \<Rightarrow> string list \<times> backup_state" where
  "get_databases env st =
     (let st1 = log_event DatabasesListed st
      in case db_listing env of
           Inl m \<Rightarrow> ([], add_error m st1)
         | Inr databases \<Rightarrow> (databases, st1))"

text \<open>What \<open>run_backup_procedure\<close> does inside \<open>try\<close>, after the lock is held.\<close>

definition run_locked :: "environment \<Rightarrow> backup_state \<Rightarrow> backup_state" where
  "run_locked env st =
     (case check_disk_space (disk_free env None) MIN_DISK_SPACE_MB False st of
        (False, st1) \<Rightarrow> send_final_notification 0 0 (add_error DiskSpaceAborted st1)
      | (True, st1) \<Rightarrow>
          (let st2 = extend_warnings (health_issues env) (log_event HealthChecked st1);
               st3 = snd (retry_failed_uploads env (log_event RetryPassRun st2))
           in case get_databases env st3 of
                ([], st4) \<Rightarrow> send_final_notification 0 0 (add_error NoDatabasesFound st4)
              | (databases, st4) \<Rightarrow>
                  (case database_loop env databases ((0, 0), st4) of
                     ((successful_backups, failed_backups), st5) \<Rightarrow>
                       (let st6 = snd (cleanup_old_backups_azure env (log_event RemoteSwept st5));
                            st7 = snd (cleanup_local_backups env (log_event LocalSwept st6))
                        in if errors st7 \<noteq> [] then
                             send_final_notification successful_backups failed_backups st7
                           else if warnings st7 \<noteq> [] \<and> notify_on_warnings env then
                             send_final_notification successful_backups failed_backups st7
                           else st7))))"

text \<open>The lock is taken before \<open>try\<close>; \<open>finally\<close> releases it on every path through
  \<open>run_locked\<close>.\<close>

definition run_backup_procedure :: "environment \<Rightarrow> backup_state \<Rightarrow> backup_state" where
  "run_backup_procedure env st =
     (case acquire_lock env st of
        (False, st1) \<Rightarrow> st1
      | (True, st1) \<Rightarrow> release_lock (run_locked env st1))"

subsection \<open>Concrete states and predicates used in the statements\<close>

text \<open>The attributes after \<open>__init__\<close> on a host with no ledger file and no backups.\<close>

definition initial_state :: backup_state where
  "initial_state =
     \<lparr>errors = [], warnings = [], failed_uploads = [], files = [], blobs = [],
      lock_file = None, actual_lock_file = LOCK_FILE, events = []\<rparr>"

text \<open>The upload attempts that the retry pass makes.\<close>

definition is_retry_event :: "event \<Rightarrow> bool" where
  "is_retry_event e = (case e of UploadTried f r \<Rightarrow> r | _ \<Rightarrow> False)"

text \<open>The events of the states between \<open>LockAcquired\<close> and \<open>Notified\<close>, and the release:
  every event but an attempt on a lock path and the notification.\<close>

definition state_event :: "event \<Rightarrow> bool" where
  "state_event e = (case e of LockTried p \<Rightarrow> False | NotificationSent s f \<Rightarrow> False | _ \<Rightarrow> True)"

text \<open>
  An environment in which everything works: both lock paths free, 10 GiB of disk, two
  databases, Azure reachable, the clock at 2024-06-01 03:00.
\<close>

definition working_env :: environment where
  "working_env =
     \<lparr>primary_lock = Locked, fallback_lock = Locked,
      disk_free = (\<lambda>_. Some 10737418240),
      health_issues = [],
      now = \<lparr>year = 2024, month = 6, day = 1, hour = 3, minute = 0, second = 0,
              microsecond = 0\<rparr>,
      credentials_configured = True, key_is_base64 = True, client_created = True,
      blob_upload = (\<lambda>_. None),
      db_listing = Inr [''app_db'', ''analytics''],
      pre_maintenance = (\<lambda>_. []),
      dump_time = (\<lambda>_. \<lparr>year = 2024, month = 6, day = 1, hour = 3, minute = 0, second = 7,
                           microsecond = 123456\<rparr>),
      dump_result = (\<lambda>_. None),
      post_maintenance = (\<lambda>_. []),
      list_blobs_error = None,
      delete_blob = (\<lambda>_. Deleted),
      unlink_ok = (\<lambda>_. True),
      notify_on_warnings = False\<rparr>"

definition permission_denied :: os_error where
  "permission_denied =
     \<lparr>is_permission_error = True,
      error_text = ''[Errno 13] Permission denied: /var/backups/pgbackup/pgbackup.lock''\<rparr>"

text \<open>A local artifact: what \<open>backup_dir.glob("*.sql.gz")\<close> yields.\<close>

definition artifact :: "string \<Rightarrow> bool" where
  "artifact p = glob_matches BACKUP_DIR ''.sql.gz'' p"

text \<open>
  The two conditions under which the local sweep removes the artifact \<open>p\<close> of modification
  time \<open>t\<close>, given the ledger as the map \<open>ledger\<close>: it is older than the cutoff and has no
  entry, or it has an entry whose \<open>retry_count\<close> has reached the maximum.
\<close>

definition sweep_condition :: "int \<Rightarrow> (string \<rightharpoonup> upload_info) \<Rightarrow> string \<Rightarrow> int \<Rightarrow> bool" where
  "sweep_condition cutoff_date ledger p t =
     ((t < cutoff_date \<and> ledger p = None) \<or>
      (case ledger p of None \<Rightarrow> False | Some info \<Rightarrow> retry_count info \<ge> MAX_UPLOAD_RETRIES))"

text \<open>
  A state for the sweeps, at the clock of \<open>working_env\<close>: four local artifacts, one month
  old or one day old, two of them in the ledger (with 3 and with 0 retries).
\<close>

definition month_old :: int where
  "month_old = to_us \<lparr>year = 2024, month = 5, day = 1, hour = 3, minute = 0, second = 7,
                        microsecond = 0\<rparr>"

definition day_old :: int where
  "day_old = to_us \<lparr>year = 2024, month = 5, day = 31, hour = 3, minute = 0, second = 7,
                      microsecond = 0\<rparr>"

definition sweep_state :: backup_state where
  "sweep_state = initial_state
     \<lparr>files :=
        [(''/var/backups/pgbackup/app_db_20240501_030007_000001.sql.gz'', month_old),
         (''/var/backups/pgbackup/analytics_20240531_030007_000002.sql.gz'', day_old),
         (''/var/backups/pgbackup/sales_20240531_030007_000003.sql.gz'', day_old),
         (''/var/backups/pgbackup/crm_20240501_030007_000004.sql.gz'', month_old)],
      failed_uploads :=
        [(''/var/backups/pgbackup/analytics_20240531_030007_000002.sql.gz'',
          \<lparr>first_failure = day_old, retry_count = 3, last_attempt = day_old\<rparr>),
         (''/var/backups/pgbackup/crm_20240501_030007_000004.sql.gz'',
          \<lparr>first_failure = month_old, retry_count = 0, last_attempt = month_old\<rparr>)]\<rparr>"

text \<open>An environment in which every upload raises an Azure error, and a state with one
  artifact on disk that has not been uploaded yet.\<close>

definition failing_upload_env :: environment where
  "failing_upload_env = working_env\<lparr>blob_upload := (\<lambda>_. Some (AzureError ''timeout''))\<rparr>"

definition analytics_artifact :: string where
  "analytics_artifact = ''/var/backups/pgbackup/analytics_20240531_030007_000002.sql.gz''"

definition crm_artifact :: string where
  "crm_artifact = ''/var/backups/pgbackup/crm_20240501_030007_000004.sql.gz''"

definition fresh_state :: backup_state where
  "fresh_state = initial_state\<lparr>files := [(analytics_artifact, day_old)]\<rparr>"

text \<open>
  The naming pattern in the spec's words: the name ends with an underscore, eight digits
  (the group \<open>g\<close>), an underscore, six digits, an underscore, one or more digits and
  \<open>.sql.gz\<close>. As \<open>$\<close> does in Python, the pattern also accepts one newline after that.
\<close>

definition trailing_stamp :: "string \<Rightarrow> string \<Rightarrow> bool" where
  "trailing_stamp name g =
     (\<exists>pre t6 n e. name = pre @ ''_'' @ g @ ''_'' @ t6 @ ''_'' @ n @ ''.sql.gz'' @ e \<and>
        length g = 8 \<and> list_all is_digit g \<and> length t6 = 6 \<and> list_all is_digit t6 \<and>
        n \<noteq> [] \<and> list_all is_digit n \<and> (e = [] \<or> e = [CHR 0x0A]))"

text \<open>A blob is due in the remote sweep when its name carries a date that \<open>strptime\<close>
  accepts and that date, at midnight, is before the cutoff.\<close>

definition remote_due :: "int \<Rightarrow> string \<Rightarrow> bool" where
  "remote_due cutoff_date name =
     (\<exists>g d. trailing_stamp name g \<and> strptime_Ymd g = Some d \<and> to_us d < cutoff_date)"

text \<open>The date of a \<open>datetime\<close>, at midnight.\<close>

definition date_of :: "datetime \<Rightarrow> datetime" where
  "date_of t = \<lparr>year = year t, month = month t, day = day t, hour = 0, minute = 0, second = 0,
                 microsecond = 0\<rparr>"

text \<open>The remote container of scenario D, with one recent backup added.\<close>

definition remote_state :: backup_state where
  "remote_state = initial_state
     \<lparr>blobs := [''sales_20230101_120000_000001.sql.gz'', ''malformed_backup.sql.gz'',
                 ''sales_20240531_030007_000003.sql.gz'']\<rparr>"

text \<open>
  The scenario of an upload that keeps failing, as far as the ledger sees it: the upload
  of the new artifact in the first run, then the retry pass of each of the next three
  runs. The ledger is written to its file after every change and read back at the start
  of the next run, so each run starts from the ledger the previous one left.
\<close>

definition after_first_run :: backup_state where
  "after_first_run = snd (upload_to_azure failing_upload_env analytics_artifact False fresh_state)"

definition after_second_run :: backup_state where
  "after_second_run = snd (retry_failed_uploads failing_upload_env after_first_run)"

definition after_third_run :: backup_state where
  "after_third_run = snd (retry_failed_uploads failing_upload_env after_second_run)"

definition after_fourth_retry_pass :: backup_state where
  "after_fourth_retry_pass = snd (retry_failed_uploads failing_upload_env after_third_run)"

section \<open>Properties\<close>

subsection \<open>The filename sanitizer\<close>

lemma filename_safe_underscore: "filename_safe (CHR ''_'')"
  by (simp add: filename_safe_def)

lemma slash_dot_unsafe: "\<not> filename_safe (CHR ''/'')" "\<not> filename_safe (CHR ''.'')"
  by (simp_all add: filename_safe_def is_letter_def is_digit_def code_point_def)

text \<open>
  C10. For every input, \<open>_sanitize_filename\<close> returns at most 50 characters, all of them
  ASCII letters, digits, underscore or hyphen (so never a slash or a dot), and the
  character at each position is the input's character there, or an underscore where the
  input's character is not allowed.
\<close>

theorem sanitize_filename_safe:
  "length (sanitize_filename name) \<le> 50 \<and>
   length (sanitize_filename name) = min 50 (length name) \<and>
   (\<forall>c \<in> set (sanitize_filename name). filename_safe c) \<and>
   CHR ''/'' \<notin> set (sanitize_filename name) \<and>
   CHR ''.'' \<notin> set (sanitize_filename name) \<and>
   (\<forall>i < length (sanitize_filename name).
      sanitize_filename name ! i = (if filename_safe (name ! i) then name ! i else CHR ''_''))"
proof -
  let ?r = "sanitize_filename name"
  have len: "length ?r = min 50 (length name)"
    by (simp add: sanitize_filename_def min.commute)
  have safe: "\<forall>c \<in> set ?r. filename_safe c"
  proof
    fix c assume "c \<in> set ?r"
    then have "c \<in> set (map (\<lambda>c. if filename_safe c then c else CHR ''_'') name)"
      unfolding sanitize_filename_def by (rule in_set_takeD)
    then show "filename_safe c"
      by (auto simp: filename_safe_underscore)
  qed
  have pt: "\<forall>i < length ?r. ?r ! i = (if filename_safe (name ! i) then name ! i else CHR ''_'')"
    by (simp add: sanitize_filename_def)
  from safe slash_dot_unsafe have "CHR ''/'' \<notin> set ?r" "CHR ''.'' \<notin> set ?r"
    by blast+
  with len safe pt show ?thesis by simp
qed

theorem sanitize_filename_safe_witness:
  "sanitize_filename ''my.db/x'' = ''my_db_x'' \<and>
   (2::nat) < length (sanitize_filename ''my.db/x'') \<and>
   CHR ''_'' \<in> set (sanitize_filename ''my.db/x'') \<and>
   filename_safe (CHR ''_'') \<and>
   sanitize_filename ''my.db/x'' ! 2 = CHR ''_''"
proof -
  have e: "sanitize_filename ''my.db/x'' = ''my_db_x''"
    by (simp add: sanitize_filename_def filename_safe_def is_letter_def is_digit_def code_point_def)
  have m: "CHR ''_'' \<in> set (sanitize_filename ''my.db/x'')"
    and l: "(2::nat) < length (sanitize_filename ''my.db/x'')"
    by (simp_all add: e)
  from sanitize_filename_safe [of "''my.db/x''"] m l
  have "filename_safe (CHR ''_'')"
    "sanitize_filename ''my.db/x'' ! 2 =
       (if filename_safe (''my.db/x'' ! 2) then ''my.db/x'' ! 2 else CHR ''_'')"
    by blast+
  with e m l show ?thesis by simp
qed

subsection \<open>How the helpers touch the fields of the state\<close>

lemma log_event_fields [simp]:
  "errors (log_event e st) = errors st"
  "warnings (log_event e st) = warnings st"
  "failed_uploads (log_event e st) = failed_uploads st"
  "files (log_event e st) = files st"
  "blobs (log_event e st) = blobs st"
  "lock_file (log_event e st) = lock_file st"
  "actual_lock_file (log_event e st) = actual_lock_file st"
  "events (log_event e st) = events st @ [e]"
  by (simp_all add: log_event_def)

lemma add_error_fields [simp]:
  "errors (add_error m st) = errors st @ [m]"
  "warnings (add_error m st) = warnings st"
  "failed_uploads (add_error m st) = failed_uploads st"
  "files (add_error m st) = files st"
  "blobs (add_error m st) = blobs st"
  "lock_file (add_error m st) = lock_file st"
  "actual_lock_file (add_error m st) = actual_lock_file st"
  "events (add_error m st) = events st"
  by (simp_all add: add_error_def)

lemma add_warning_fields [simp]:
  "errors (add_warning m st) = errors st"
  "warnings (add_warning m st) = warnings st @ [m]"
  "failed_uploads (add_warning m st) = failed_uploads st"
  "files (add_warning m st) = files st"
  "blobs (add_warning m st) = blobs st"
  "lock_file (add_warning m st) = lock_file st"
  "actual_lock_file (add_warning m st) = actual_lock_file st"
  "events (add_warning m st) = events st"
  by (simp_all add: add_warning_def)

lemma extend_warnings_fields [simp]:
  "errors (extend_warnings ms st) = errors st"
  "warnings (extend_warnings ms st) = warnings st @ ms"
  "failed_uploads (extend_warnings ms st) = failed_uploads st"
  "files (extend_warnings ms st) = files st"
  "blobs (extend_warnings ms st) = blobs st"
  "lock_file (extend_warnings ms st) = lock_file st"
  "actual_lock_file (extend_warnings ms st) = actual_lock_file st"
  "events (extend_warnings ms st) = events st"
  by (simp_all add: extend_warnings_def)

lemma mark_upload_failed_fields [simp]:
  "errors (mark_upload_failed env f st) = errors st"
  "warnings (mark_upload_failed env f st) = warnings st"
  "files (mark_upload_failed env f st) = files st"
  "blobs (mark_upload_failed env f st) = blobs st"
  "lock_file (mark_upload_failed env f st) = lock_file st"
  "actual_lock_file (mark_upload_failed env f st) = actual_lock_file st"
  "events (mark_upload_failed env f st) = events st"
  by (simp_all add: mark_upload_failed_def split: option.split)

lemma mark_upload_success_fields [simp]:
  "errors (mark_upload_success f st) = errors st"
  "warnings (mark_upload_success f st) = warnings st"
  "files (mark_upload_success f st) = files st"
  "blobs (mark_upload_success f st) = blobs st"
  "lock_file (mark_upload_success f st) = lock_file st"
  "actual_lock_file (mark_upload_success f st) = actual_lock_file st"
  "events (mark_upload_success f st) = events st"
  by (simp_all add: mark_upload_success_def)

lemma store_blob_fields [simp]:
  "errors (store_blob b st) = errors st"
  "warnings (store_blob b st) = warnings st"
  "failed_uploads (store_blob b st) = failed_uploads st"
  "files (store_blob b st) = files st"
  "lock_file (store_blob b st) = lock_file st"
  "actual_lock_file (store_blob b st) = actual_lock_file st"
  "events (store_blob b st) = events st"
  by (simp_all add: store_blob_def)

lemma unlink_fields [simp]:
  "errors (unlink p st) = errors st"
  "warnings (unlink p st) = warnings st"
  "failed_uploads (unlink p st) = failed_uploads st"
  "files (unlink p st) = filter (\<lambda>(q, t). q \<noteq> p) (files st)"
  "blobs (unlink p st) = blobs st"
  "lock_file (unlink p st) = lock_file st"
  "actual_lock_file (unlink p st) = actual_lock_file st"
  "events (unlink p st) = events st"
  by (simp_all add: unlink_def)

lemma remove_blob_fields [simp]:
  "errors (remove_blob b st) = errors st"
  "warnings (remove_blob b st) = warnings st"
  "failed_uploads (remove_blob b st) = failed_uploads st"
  "files (remove_blob b st) = files st"
  "blobs (remove_blob b st) = filter (\<lambda>x. x \<noteq> b) (blobs st)"
  "lock_file (remove_blob b st) = lock_file st"
  "actual_lock_file (remove_blob b st) = actual_lock_file st"
  "events (remove_blob b st) = events st"
  by (simp_all add: remove_blob_def)

subsection \<open>The events of each step\<close>

lemma check_disk_space_events:
  "events (snd (check_disk_space probe r w st)) = events st @ [DiskProbed]"
  by (simp add: check_disk_space_def Let_def split: option.split)

lemma check_disk_space_lock:
  "lock_file (snd (check_disk_space probe r w st)) = lock_file st"
  "actual_lock_file (snd (check_disk_space probe r w st)) = actual_lock_file st"
  by (simp_all add: check_disk_space_def Let_def split: option.split)

lemma upload_to_azure_events:
  "events (snd (upload_to_azure env f r st)) = events st @ [UploadTried f r]"
  by (simp add: upload_to_azure_def Let_def split: option.split failure.split)

lemma upload_to_azure_lock:
  "lock_file (snd (upload_to_azure env f r st)) = lock_file st"
  "actual_lock_file (snd (upload_to_azure env f r st)) = actual_lock_file st"
  by (simp_all add: upload_to_azure_def Let_def split: option.split failure.split)

lemma should_retry_upload_events:
  "events (snd (should_retry_upload f st)) = events st"
  "lock_file (snd (should_retry_upload f st)) = lock_file st"
  "actual_lock_file (snd (should_retry_upload f st)) = actual_lock_file st"
  by (simp_all add: should_retry_upload_def split: option.split)

lemma retry_one_events:
  "\<exists>es. events (snd (retry_one env f acc)) = events (snd acc) @ es \<and> list_all is_retry_event es"
proof -
  obtain s fl st where acc: "acc = ((s, fl), st)" by (metis surj_pair)
  obtain ok st1 where sr: "should_retry_upload f st = (ok, st1)" by (metis surj_pair)
  have e1: "events st1 = events st" using should_retry_upload_events(1) [of f st] sr by simp
  show ?thesis
  proof (cases "ok \<and> file_exists st1 f")
    case False
    then have "events (snd (retry_one env f acc)) = events st"
      using acc sr e1 by (cases ok) (auto simp: retry_one_def)
    then show ?thesis using acc by simp
  next
    case True
    obtain ok2 st2 where up: "upload_to_azure env f True st1 = (ok2, st2)" by (metis surj_pair)
    have "events st2 = events st @ [UploadTried f True]"
      using upload_to_azure_events [of env f True st1] up e1 by simp
    moreover have "snd (retry_one env f acc) = st2"
      using acc sr up True by (cases ok2) (simp_all add: retry_one_def)
    ultimately have "events (snd (retry_one env f acc)) = events (snd acc) @ [UploadTried f True]"
      using acc by simp
    then show ?thesis by (intro exI [of _ "[UploadTried f True]"]) (simp add: is_retry_event_def)
  qed
qed

lemma retry_one_lock:
  "lock_file (snd (retry_one env f acc)) = lock_file (snd acc) \<and>
   actual_lock_file (snd (retry_one env f acc)) = actual_lock_file (snd acc)"
proof -
  obtain s fl st where acc: "acc = ((s, fl), st)" by (metis surj_pair)
  obtain ok st1 where sr: "should_retry_upload f st = (ok, st1)" by (metis surj_pair)
  obtain ok2 st2 where up: "upload_to_azure env f True st1 = (ok2, st2)" by (metis surj_pair)
  have "lock_file st1 = lock_file st" "actual_lock_file st1 = actual_lock_file st"
    using should_retry_upload_events [of f st] sr by simp_all
  moreover have "lock_file st2 = lock_file st1" "actual_lock_file st2 = actual_lock_file st1"
    using upload_to_azure_lock [of env f True st1] up by simp_all
  ultimately show ?thesis
    using acc sr up by (cases ok; cases ok2) (simp_all add: retry_one_def)
qed

lemma retry_loop_events:
  "\<exists>es. events (snd (retry_loop env fs acc)) = events (snd acc) @ es \<and> list_all is_retry_event es"
proof (induction fs arbitrary: acc)
  case Nil
  then show ?case by simp
next
  case (Cons f fs)
  obtain es1 where 1: "events (snd (retry_one env f acc)) = events (snd acc) @ es1"
    "list_all is_retry_event es1" using retry_one_events by blast
  obtain es2 where 2: "events (snd (retry_loop env fs (retry_one env f acc))) =
      events (snd (retry_one env f acc)) @ es2" "list_all is_retry_event es2"
    using Cons.IH by blast
  show ?case
    by (rule exI [of _ "es1 @ es2"]) (simp add: 1 2)
qed

lemma retry_loop_lock:
  "lock_file (snd (retry_loop env fs acc)) = lock_file (snd acc) \<and>
   actual_lock_file (snd (retry_loop env fs acc)) = actual_lock_file (snd acc)"
  by (induction fs arbitrary: acc) (simp_all add: retry_one_lock)

lemma retry_failed_uploads_events:
  "\<exists>es. events (snd (retry_failed_uploads env st)) = events st @ es \<and> list_all is_retry_event es"
  using retry_loop_events [of env "map fst (failed_uploads st)" "((0, 0), st)"]
  by (simp add: retry_failed_uploads_def)

lemma retry_failed_uploads_lock:
  "lock_file (snd (retry_failed_uploads env st)) = lock_file st"
  "actual_lock_file (snd (retry_failed_uploads env st)) = actual_lock_file st"
  using retry_loop_lock [of env "map fst (failed_uploads st)" "((0, 0), st)"]
  by (simp_all add: retry_failed_uploads_def)

subsection \<open>The capacity check\<close>

lemma free_mb_less_iff: "free_mb free < of_int required_mb \<longleftrightarrow> free < required_mb * 1048576"
proof -
  have "free_mb free < of_int required_mb \<longleftrightarrow>
        (of_int free :: rat) < of_int required_mb * 1048576"
    by (simp add: free_mb_def pos_divide_less_eq)
  also have "\<dots> \<longleftrightarrow> (of_int free :: rat) < of_int (required_mb * 1048576)"
    by simp
  also have "\<dots> \<longleftrightarrow> free < required_mb * 1048576"
    by (rule of_int_less_iff)
  finally show ?thesis .
qed

text \<open>
  C8. With the free space read, \<open>_check_disk_space\<close> below the threshold returns true
  and appends one warning in warn-only mode, returns false and appends one error in hard
  mode; at or above the threshold it returns true in both modes and leaves both lists as
  they were. In no case does it touch the other list.
\<close>

theorem check_disk_space_modes:
  assumes "check_disk_space (Some free) required_mb warn_only st = (ok, st')"
  shows "(free_mb free < of_int required_mb \<and> warn_only \<longrightarrow>
            ok \<and> warnings st' = warnings st @ [InsufficientDiskSpace free required_mb] \<and>
            errors st' = errors st) \<and>
         (free_mb free < of_int required_mb \<and> \<not> warn_only \<longrightarrow>
            \<not> ok \<and> errors st' = errors st @ [InsufficientDiskSpace free required_mb] \<and>
            warnings st' = warnings st) \<and>
         (\<not> free_mb free < of_int required_mb \<longrightarrow>
            ok \<and> errors st' = errors st \<and> warnings st' = warnings st)"
  using assms by (auto simp: check_disk_space_def Let_def split: if_splits)

theorem check_disk_space_modes_witness:
  "free_mb 524288000 < of_int 1024 \<and>
   \<not> free_mb 2147483648 < of_int 1024 \<and>
   \<not> fst (check_disk_space (Some 524288000) 1024 False initial_state) \<and>
   errors (snd (check_disk_space (Some 524288000) 1024 False initial_state)) =
     [InsufficientDiskSpace 524288000 1024] \<and>
   fst (check_disk_space (Some 524288000) 1024 True initial_state) \<and>
   warnings (snd (check_disk_space (Some 524288000) 1024 True initial_state)) =
     [InsufficientDiskSpace 524288000 1024] \<and>
   fst (check_disk_space (Some 2147483648) 1024 False initial_state) \<and>
   errors (snd (check_disk_space (Some 2147483648) 1024 False initial_state)) = []"
proof -
  have low: "free_mb 524288000 < of_int 1024" and high: "\<not> free_mb 2147483648 < of_int 1024"
    by (simp_all add: free_mb_def)
  have init: "errors initial_state = []" "warnings initial_state = []"
    by (simp_all add: initial_state_def)
  note hard = check_disk_space_modes [OF surjective_pairing, of 524288000 1024 False initial_state]
    and soft = check_disk_space_modes [OF surjective_pairing, of 524288000 1024 True initial_state]
    and enough = check_disk_space_modes [OF surjective_pairing, of 2147483648 1024 False initial_state]
  from low high init hard soft enough show ?thesis by simp
qed

lemma backup_database_events:
  "events (snd (backup_database env db st)) = events st @ [DiskProbed, Dumped db]"
  using check_disk_space_events [of "disk_free env (Some db)" "MIN_DISK_SPACE_MB * 2" True st]
  by (simp add: backup_database_def Let_def split: option.split)

lemma process_database_events:
  "prefix (events (snd acc)) (events (snd (process_database env db acc)))"
proof -
  obtain s fl st where acc: "acc = ((s, fl), st)" by (metis surj_pair)
  let ?st1 = "extend_warnings (pre_maintenance env db) (log_event (PreMaintenance db) st)"
  obtain r st2 where bd: "backup_database env db ?st1 = (r, st2)" by (metis surj_pair)
  have e2: "events st2 = events st @ [PreMaintenance db, DiskProbed, Dumped db]"
    using backup_database_events [of env db ?st1] bd by simp
  show ?thesis
  proof (cases r)
    case None
    then show ?thesis using acc bd e2 by (simp add: process_database_def)
  next
    case (Some f)
    obtain ok st3 where up: "upload_to_azure env f False st2 = (ok, st3)" by (metis surj_pair)
    have "events st3 = events st2 @ [UploadTried f False]"
      using upload_to_azure_events [of env f False st2] up by simp
    then show ?thesis using acc bd e2 Some up
      by (cases ok) (simp_all add: process_database_def)
  qed
qed

lemma database_loop_events:
  "prefix (events (snd acc)) (events (snd (database_loop env dbs acc)))"
proof (induction dbs arbitrary: acc)
  case Nil
  then show ?case by simp
next
  case (Cons db dbs)
  have "prefix (events (snd acc)) (events (snd (process_database env db acc)))"
    by (rule process_database_events)
  also have "prefix \<dots> (events (snd (database_loop env dbs (process_database env db acc))))"
    by (rule Cons.IH)
  finally show ?case by simp
qed

lemma sweep_blobs_events:
  "events (snd (snd (sweep_blobs env c names (n, st)))) = events st"
  by (induction names arbitrary: n st) (simp_all split: option.split delete_result.split)

lemma cleanup_old_backups_azure_events:
  "events (snd (cleanup_old_backups_azure env st)) = events st"
proof -
  obtain r n st1 where sw: "sweep_blobs env (remote_cutoff env) (blobs st) (0, st) = (r, n, st1)"
    by (metis surj_pair)
  have "events st1 = events st"
    using sweep_blobs_events [of env "remote_cutoff env" "blobs st" 0 st] sw by simp
  then show ?thesis using sw
    by (simp add: cleanup_old_backups_azure_def split: option.split)
qed

lemma cleanup_temp_events: "events (cleanup_temp env xs st) = events st"
  by (induction xs arbitrary: st) auto

lemma cleanup_one_events: "events (snd (cleanup_one env c x acc)) = events (snd acc)"
  by (cases x; cases acc) (simp add: cleanup_one_def Let_def split: option.split)

lemma cleanup_loop_events: "events (snd (cleanup_loop env c xs acc)) = events (snd acc)"
  by (induction xs arbitrary: acc) (simp_all add: cleanup_one_events)

lemma cleanup_local_backups_events: "events (snd (cleanup_local_backups env st)) = events st"
  by (simp add: cleanup_local_backups_def Let_def cleanup_loop_events cleanup_temp_events)

lemma get_databases_events:
  "events (snd (get_databases env st)) = events st @ [DatabasesListed]"
  "lock_file (snd (get_databases env st)) = lock_file st"
  "actual_lock_file (snd (get_databases env st)) = actual_lock_file st"
  by (simp_all add: get_databases_def Let_def split: sum.split)

text \<open>What follows the listing of the databases in \<open>run_locked\<close> only adds events.\<close>

lemma after_listing_events:
  "prefix (events st4)
     (events (case database_loop env databases ((0, 0), st4) of
        ((successful_backups, failed_backups), st5) \<Rightarrow>
          (let st6 = snd (cleanup_old_backups_azure env (log_event RemoteSwept st5));
               st7 = snd (cleanup_local_backups env (log_event LocalSwept st6))
           in if errors st7 \<noteq> [] then
                send_final_notification successful_backups failed_backups st7
              else if warnings st7 \<noteq> [] \<and> notify_on_warnings env then
                send_final_notification successful_backups failed_backups st7
              else st7)))"
proof -
  obtain s fl st5 where dl: "database_loop env databases ((0, 0), st4) = ((s, fl), st5)"
    by (metis surj_pair)
  have "prefix (events st4) (events st5)"
    using database_loop_events [of "((0, 0), st4)" env databases] dl by simp
  then obtain es where es: "events st5 = events st4 @ es" by (auto simp: prefix_def)
  show ?thesis
    by (simp add: dl Let_def send_final_notification_def cleanup_local_backups_events
        cleanup_old_backups_azure_events es)
qed

lemma run_locked_admitted:
  assumes "fst (check_disk_space (disk_free env None) MIN_DISK_SPACE_MB False st)"
  shows "prefix (events st @ [DiskProbed, HealthChecked, RetryPassRun]) (events (run_locked env st))"
proof -
  obtain st1 where cd: "check_disk_space (disk_free env None) MIN_DISK_SPACE_MB False st = (True, st1)"
    using assms by (metis prod.collapse)
  have e1: "events st1 = events st @ [DiskProbed]"
    using check_disk_space_events [of "disk_free env None" MIN_DISK_SPACE_MB False st] cd by simp
  let ?st2 = "extend_warnings (health_issues env) (log_event HealthChecked st1)"
  let ?st3 = "snd (retry_failed_uploads env (log_event RetryPassRun ?st2))"
  obtain es where e3: "events ?st3 = events st @ [DiskProbed, HealthChecked, RetryPassRun] @ es"
    using retry_failed_uploads_events [of env "log_event RetryPassRun ?st2"] e1 by auto
  obtain dbs st4 where gd: "get_databases env ?st3 = (dbs, st4)" by (metis surj_pair)
  have e4: "events st4 = events st @ [DiskProbed, HealthChecked, RetryPassRun] @ es @ [DatabasesListed]"
    using get_databases_events(1) [of env ?st3] gd e3 by simp
  show ?thesis
  proof (cases dbs)
    case Nil
    then show ?thesis using cd gd e4
      by (simp add: run_locked_def Let_def send_final_notification_def prefix_def)
  next
    case (Cons d ds)
    have "prefix (events st @ [DiskProbed, HealthChecked, RetryPassRun]) (events st4)"
      using e4 by (simp add: prefix_def)
    also note after_listing_events [of st4 env dbs]
    finally show ?thesis using cd gd Cons
      by (simp add: run_locked_def Let_def)
  qed
qed

text \<open>
  C9. When reading the free space raises, \<open>_check_disk_space\<close> returns true in both modes
  and records neither an error nor a warning; the run then goes past the hard gate: the
  health check and the retry pass follow the probe.
\<close>

theorem check_disk_space_probe_fails:
  "fst (check_disk_space None required_mb warn_only st) \<and>
   errors (snd (check_disk_space None required_mb warn_only st)) = errors st \<and>
   warnings (snd (check_disk_space None required_mb warn_only st)) = warnings st \<and>
   (disk_free env None = None \<longrightarrow>
      prefix (events st @ [DiskProbed, HealthChecked, RetryPassRun]) (events (run_locked env st)))"
proof -
  have c: "check_disk_space None required_mb warn_only st = (True, log_event DiskProbed st)" for required_mb warn_only
    by (simp add: check_disk_space_def)
  have "prefix (events st @ [DiskProbed, HealthChecked, RetryPassRun]) (events (run_locked env st))"
    if "disk_free env None = None"
    by (rule run_locked_admitted) (simp add: that c)
  then show ?thesis by (simp add: c)
qed

theorem check_disk_space_probe_fails_witness:
  "disk_free (working_env\<lparr>disk_free := \<lambda>_. None\<rparr>) None = None \<and>
   prefix [DiskProbed, HealthChecked, RetryPassRun]
     (events (run_locked (working_env\<lparr>disk_free := \<lambda>_. None\<rparr>) initial_state))"
  using check_disk_space_probe_fails [of 0 False initial_state "working_env\<lparr>disk_free := \<lambda>_. None\<rparr>"]
  by (simp add: initial_state_def)

subsection \<open>The execution guard\<close>

lemma contention_is_not_permission: "\<not> permission_condition lock_contention"
  by (simp add: permission_condition_def lock_contention_def) code_simp

lemma permission_denied_is_permission: "permission_condition permission_denied"
  by (simp add: permission_condition_def permission_denied_def)

text \<open>
  C4. When the attempt on the primary path raises an error that is no permission
  condition, as the contention of a held lock is, \<open>_acquire_lock\<close> returns false with the
  error recorded and has tried the primary path only. When it raises a permission
  condition, the fallback path is tried next; if that attempt succeeds the function returns
  true and \<open>actual_lock_file\<close> is the fallback path, otherwise it returns false.
  When the primary attempt succeeds, \<open>actual_lock_file\<close> is the primary path.
\<close>

theorem acquire_lock_paths:
  "\<not> permission_condition lock_contention \<and>
   ((primary_lock env = OpenRaised e \<or> primary_lock env = FlockRaised e) \<and>
    \<not> permission_condition e \<longrightarrow>
      \<not> fst (acquire_lock env st) \<and>
      events (snd (acquire_lock env st)) = events st @ [LockTried LOCK_FILE] \<and>
      errors (snd (acquire_lock env st)) = errors st @ [BackupAlreadyInProgress]) \<and>
   ((primary_lock env = OpenRaised e \<or> primary_lock env = FlockRaised e) \<and>
    permission_condition e \<longrightarrow>
      events (snd (acquire_lock env st)) =
        events st @ [LockTried LOCK_FILE, LockTried FALLBACK_LOCK] \<and>
      (fallback_lock env = Locked \<longrightarrow>
         fst (acquire_lock env st) \<and>
         actual_lock_file (snd (acquire_lock env st)) = FALLBACK_LOCK \<and>
         lock_file (snd (acquire_lock env st)) = Some FALLBACK_LOCK \<and>
         errors (snd (acquire_lock env st)) = errors st) \<and>
      (fallback_lock env \<noteq> Locked \<longrightarrow>
         \<not> fst (acquire_lock env st) \<and>
         errors (snd (acquire_lock env st)) = errors st @ [CannotAcquireLock])) \<and>
   (primary_lock env = Locked \<longrightarrow>
      fst (acquire_lock env st) \<and>
      actual_lock_file (snd (acquire_lock env st)) = LOCK_FILE \<and>
      lock_file (snd (acquire_lock env st)) = Some LOCK_FILE \<and>
      events (snd (acquire_lock env st)) = events st @ [LockTried LOCK_FILE])"
proof -
  have a: "\<not> fst (acquire_lock env st) \<and>
      events (snd (acquire_lock env st)) = events st @ [LockTried LOCK_FILE] \<and>
      errors (snd (acquire_lock env st)) = errors st @ [BackupAlreadyInProgress]"
    if "primary_lock env = OpenRaised e \<or> primary_lock env = FlockRaised e"
      and "\<not> permission_condition e"
    using that by (auto simp: acquire_lock_def Let_def)
  have b: "events (snd (acquire_lock env st)) =
        events st @ [LockTried LOCK_FILE, LockTried FALLBACK_LOCK] \<and>
      (fallback_lock env = Locked \<longrightarrow>
         fst (acquire_lock env st) \<and>
         actual_lock_file (snd (acquire_lock env st)) = FALLBACK_LOCK \<and>
         lock_file (snd (acquire_lock env st)) = Some FALLBACK_LOCK \<and>
         errors (snd (acquire_lock env st)) = errors st) \<and>
      (fallback_lock env \<noteq> Locked \<longrightarrow>
         \<not> fst (acquire_lock env st) \<and>
         errors (snd (acquire_lock env st)) = errors st @ [CannotAcquireLock])"
    if "primary_lock env = OpenRaised e \<or> primary_lock env = FlockRaised e"
      and "permission_condition e"
    using that by (cases "fallback_lock env") (auto simp: acquire_lock_def Let_def)
  have c: "fst (acquire_lock env st) \<and>
      actual_lock_file (snd (acquire_lock env st)) = LOCK_FILE \<and>
      lock_file (snd (acquire_lock env st)) = Some LOCK_FILE \<and>
      events (snd (acquire_lock env st)) = events st @ [LockTried LOCK_FILE]"
    if "primary_lock env = Locked"
    using that by (simp add: acquire_lock_def Let_def)
  from a b c contention_is_not_permission show ?thesis by blast
qed

theorem acquire_lock_paths_witness:
  "\<not> fst (acquire_lock (working_env\<lparr>primary_lock := FlockRaised lock_contention\<rparr>) initial_state) \<and>
   events (snd (acquire_lock (working_env\<lparr>primary_lock := FlockRaised lock_contention\<rparr>) initial_state))
     = [LockTried LOCK_FILE] \<and>
   fst (acquire_lock (working_env\<lparr>primary_lock := OpenRaised permission_denied\<rparr>) initial_state) \<and>
   actual_lock_file (snd (acquire_lock (working_env\<lparr>primary_lock := OpenRaised permission_denied\<rparr>)
     initial_state)) = FALLBACK_LOCK \<and>
   \<not> fst (acquire_lock (working_env\<lparr>primary_lock := OpenRaised permission_denied,
       fallback_lock := FlockRaised lock_contention\<rparr>) initial_state) \<and>
   actual_lock_file (snd (acquire_lock working_env initial_state)) = LOCK_FILE"
proof -
  have w: "primary_lock working_env = Locked" "fallback_lock working_env = Locked"
    by (simp_all add: working_env_def)
  have i: "events initial_state = []" by (simp add: initial_state_def)
  note contended = acquire_lock_paths [of "working_env\<lparr>primary_lock := FlockRaised lock_contention\<rparr>"
      lock_contention initial_state]
    and fallback = acquire_lock_paths [of "working_env\<lparr>primary_lock := OpenRaised permission_denied\<rparr>"
      permission_denied initial_state]
    and both = acquire_lock_paths [of "working_env\<lparr>primary_lock := OpenRaised permission_denied,
       fallback_lock := FlockRaised lock_contention\<rparr>" permission_denied initial_state]
    and plain = acquire_lock_paths [of working_env permission_denied initial_state]
  from contended fallback both plain w i permission_denied_is_permission
  show ?thesis by simp
qed

subsection \<open>The early exits of a run\<close>

lemma acquire_lock_held:
  assumes "acquire_lock env st = (True, st1)"
  shows "lock_file st1 \<noteq> None"
  using assms
  by (cases "primary_lock env"; cases "fallback_lock env")
     (auto simp: acquire_lock_def Let_def split: if_splits)

lemma acquire_lock_tries:
  "\<exists>tries. events (snd (acquire_lock env st)) = events st @ tries \<and>
           list_all (\<lambda>e. \<not> state_event e) tries"
proof (cases "events (snd (acquire_lock env st)) = events st @ [LockTried LOCK_FILE]")
  case True
  then show ?thesis
    by (intro exI [of _ "[LockTried LOCK_FILE]"]) (simp add: state_event_def)
next
  case False
  then have "events (snd (acquire_lock env st)) =
      events st @ [LockTried LOCK_FILE, LockTried FALLBACK_LOCK]"
    by (cases "primary_lock env"; cases "fallback_lock env")
       (auto simp: acquire_lock_def Let_def split: if_splits)
  then show ?thesis
    by (intro exI [of _ "[LockTried LOCK_FILE, LockTried FALLBACK_LOCK]"]) (simp add: state_event_def)
qed

lemma acquire_lock_frame:
  "failed_uploads (snd (acquire_lock env st)) = failed_uploads st"
  "files (snd (acquire_lock env st)) = files st"
  "blobs (snd (acquire_lock env st)) = blobs st"
  by (cases "primary_lock env"; cases "fallback_lock env";
      simp add: acquire_lock_def Let_def)+

lemma run_locked_preflight_fails:
  assumes "\<not> fst (check_disk_space (disk_free env None) MIN_DISK_SPACE_MB False st)"
  shows "events (run_locked env st) = events st @ [DiskProbed, NotificationSent 0 0]"
    and "lock_file (run_locked env st) = lock_file st"
    and "actual_lock_file (run_locked env st) = actual_lock_file st"
proof -
  obtain st1 where cd: "check_disk_space (disk_free env None) MIN_DISK_SPACE_MB False st = (False, st1)"
    using assms by (cases "check_disk_space (disk_free env None) MIN_DISK_SPACE_MB False st") auto
  have r: "run_locked env st = send_final_notification 0 0 (add_error DiskSpaceAborted st1)"
    by (simp add: run_locked_def cd)
  have "events st1 = events st @ [DiskProbed]" "lock_file st1 = lock_file st"
    "actual_lock_file st1 = actual_lock_file st"
    using check_disk_space_events [of "disk_free env None" MIN_DISK_SPACE_MB False st]
      check_disk_space_lock [of "disk_free env None" MIN_DISK_SPACE_MB False st] cd by simp_all
  then show "events (run_locked env st) = events st @ [DiskProbed, NotificationSent 0 0]"
    and "lock_file (run_locked env st) = lock_file st"
    and "actual_lock_file (run_locked env st) = actual_lock_file st"
    by (simp_all add: r send_final_notification_def)
qed

lemma run_locked_no_databases:
  assumes "fst (check_disk_space (disk_free env None) MIN_DISK_SPACE_MB False st)"
    and "db_listing env = Inr [] \<or> (\<exists>m. db_listing env = Inl m)"
  shows "\<exists>retries. list_all is_retry_event retries \<and>
           events (run_locked env st) =
             events st @ [DiskProbed, HealthChecked, RetryPassRun] @ retries @
               [DatabasesListed, NotificationSent 0 0]"
    and "lock_file (run_locked env st) = lock_file st"
    and "actual_lock_file (run_locked env st) = actual_lock_file st"
proof -
  obtain st1 where cd: "check_disk_space (disk_free env None) MIN_DISK_SPACE_MB False st = (True, st1)"
    using assms(1) by (cases "check_disk_space (disk_free env None) MIN_DISK_SPACE_MB False st") auto
  have e1: "events st1 = events st @ [DiskProbed]" "lock_file st1 = lock_file st"
    "actual_lock_file st1 = actual_lock_file st"
    using check_disk_space_events [of "disk_free env None" MIN_DISK_SPACE_MB False st]
      check_disk_space_lock [of "disk_free env None" MIN_DISK_SPACE_MB False st] cd by simp_all
  let ?st2 = "extend_warnings (health_issues env) (log_event HealthChecked st1)"
  let ?st3 = "snd (retry_failed_uploads env (log_event RetryPassRun ?st2))"
  obtain es where e3: "events ?st3 = events st @ [DiskProbed, HealthChecked, RetryPassRun] @ es"
    and es: "list_all is_retry_event es"
    using retry_failed_uploads_events [of env "log_event RetryPassRun ?st2"] e1 by auto
  have l3: "lock_file ?st3 = lock_file st" "actual_lock_file ?st3 = actual_lock_file st"
    using e1 by (simp_all add: retry_failed_uploads_lock)
  obtain st4 where gd: "get_databases env ?st3 = ([], st4)"
    using assms(2) by (auto simp: get_databases_def Let_def)
  have e4: "events st4 = events st @ [DiskProbed, HealthChecked, RetryPassRun] @ es @ [DatabasesListed]"
    "lock_file st4 = lock_file st" "actual_lock_file st4 = actual_lock_file st"
    using get_databases_events [of env ?st3] gd e3 l3 by simp_all
  have r: "run_locked env st = send_final_notification 0 0 (add_error NoDatabasesFound st4)"
    using cd gd by (simp add: run_locked_def Let_def)
  show "\<exists>retries. list_all is_retry_event retries \<and>
           events (run_locked env st) =
             events st @ [DiskProbed, HealthChecked, RetryPassRun] @ retries @
               [DatabasesListed, NotificationSent 0 0]"
    by (rule exI [of _ es]) (simp add: r send_final_notification_def e4 es)
  show "lock_file (run_locked env st) = lock_file st"
    and "actual_lock_file (run_locked env st) = actual_lock_file st"
    by (simp_all add: r send_final_notification_def e4)
qed

text \<open>
  C3 (as amended). With the lock held, a failed preflight check is followed by the final
  notification and the release of the lock and by nothing else; an empty or failed listing
  of the databases is followed by the final notification and the release, after the
  preflight check, the health check and the retry pass and with no database processed and
  no sweep. When the lock cannot be acquired the run ends at once: none of the states from
  the preflight check to the sweeps is entered, no lock is released, and the ledger, the
  local files and the remote blobs are as before.
\<close>

theorem early_exit_paths:
  "(acquire_lock env st = (True, st1) \<and>
    \<not> fst (check_disk_space (disk_free env None) MIN_DISK_SPACE_MB False st1) \<longrightarrow>
      events (run_backup_procedure env st) =
        events st1 @ [DiskProbed, NotificationSent 0 0, LockReleased (actual_lock_file st1)]) \<and>
   (acquire_lock env st = (True, st1) \<and>
    fst (check_disk_space (disk_free env None) MIN_DISK_SPACE_MB False st1) \<and>
    (db_listing env = Inr [] \<or> (\<exists>m. db_listing env = Inl m)) \<longrightarrow>
      (\<exists>retries. list_all is_retry_event retries \<and>
         events (run_backup_procedure env st) =
           events st1 @ [DiskProbed, HealthChecked, RetryPassRun] @ retries @
             [DatabasesListed, NotificationSent 0 0, LockReleased (actual_lock_file st1)])) \<and>
   (acquire_lock env st = (False, st1) \<longrightarrow>
      (\<exists>tries. events (run_backup_procedure env st) = events st @ tries \<and>
         list_all (\<lambda>e. \<not> state_event e) tries) \<and>
      failed_uploads (run_backup_procedure env st) = failed_uploads st \<and>
      files (run_backup_procedure env st) = files st \<and>
      blobs (run_backup_procedure env st) = blobs st)"
proof (intro conjI impI)
  assume a: "acquire_lock env st = (True, st1) \<and>
    \<not> fst (check_disk_space (disk_free env None) MIN_DISK_SPACE_MB False st1)"
  then obtain p where p: "lock_file st1 = Some p" using acquire_lock_held by blast
  from a have r: "run_backup_procedure env st = release_lock (run_locked env st1)"
    by (simp add: run_backup_procedure_def)
  from a p show "events (run_backup_procedure env st) =
        events st1 @ [DiskProbed, NotificationSent 0 0, LockReleased (actual_lock_file st1)]"
    by (simp add: r release_lock_def run_locked_preflight_fails)
next
  assume a: "acquire_lock env st = (True, st1) \<and>
    fst (check_disk_space (disk_free env None) MIN_DISK_SPACE_MB False st1) \<and>
    (db_listing env = Inr [] \<or> (\<exists>m. db_listing env = Inl m))"
  then obtain p where p: "lock_file st1 = Some p" using acquire_lock_held by blast
  from a have r: "run_backup_procedure env st = release_lock (run_locked env st1)"
    by (simp add: run_backup_procedure_def)
  from a obtain retries where "list_all is_retry_event retries"
    "events (run_locked env st1) =
       events st1 @ [DiskProbed, HealthChecked, RetryPassRun] @ retries @
         [DatabasesListed, NotificationSent 0 0]"
    using run_locked_no_databases(1) [of env st1] by blast
  moreover from a have "lock_file (run_locked env st1) = lock_file st1"
    "actual_lock_file (run_locked env st1) = actual_lock_file st1"
    using run_locked_no_databases(2,3) [of env st1] by blast+
  ultimately show "\<exists>retries. list_all is_retry_event retries \<and>
         events (run_backup_procedure env st) =
           events st1 @ [DiskProbed, HealthChecked, RetryPassRun] @ retries @
             [DatabasesListed, NotificationSent 0 0, LockReleased (actual_lock_file st1)]"
    using p by (intro exI [of _ retries]) (simp add: r release_lock_def)
next
  assume a: "acquire_lock env st = (False, st1)"
  then have r: "run_backup_procedure env st = snd (acquire_lock env st)"
    by (simp add: run_backup_procedure_def)
  show "\<exists>tries. events (run_backup_procedure env st) = events st @ tries \<and>
         list_all (\<lambda>e. \<not> state_event e) tries"
    unfolding r by (rule acquire_lock_tries)
  show "failed_uploads (run_backup_procedure env st) = failed_uploads st"
    "files (run_backup_procedure env st) = files st"
    "blobs (run_backup_procedure env st) = blobs st"
    unfolding r by (rule acquire_lock_frame)+
qed

theorem early_exit_counterexample:
  "events (run_backup_procedure (working_env\<lparr>primary_lock := FlockRaised lock_contention\<rparr>)
     initial_state) = [LockTried LOCK_FILE]"
  using contention_is_not_permission
  by (simp add: run_backup_procedure_def acquire_lock_def Let_def initial_state_def)

theorem early_exit_paths_witness:
  "events (run_backup_procedure (working_env\<lparr>disk_free := \<lambda>_. Some 524288000\<rparr>) initial_state) =
     [LockTried LOCK_FILE, DiskProbed, NotificationSent 0 0, LockReleased LOCK_FILE] \<and>
   (\<exists>retries. events (run_backup_procedure (working_env\<lparr>db_listing := Inr []\<rparr>) initial_state) =
      [LockTried LOCK_FILE, DiskProbed, HealthChecked, RetryPassRun] @ retries @
      [DatabasesListed, NotificationSent 0 0, LockReleased LOCK_FILE]) \<and>
   files (run_backup_procedure (working_env\<lparr>primary_lock := FlockRaised lock_contention\<rparr>)
     initial_state) = []"
proof -
  let ?low = "working_env\<lparr>disk_free := \<lambda>_. Some 524288000\<rparr>"
  let ?nodb = "working_env\<lparr>db_listing := Inr []\<rparr>"
  let ?held = "working_env\<lparr>primary_lock := FlockRaised lock_contention\<rparr>"
  let ?st1 = "log_event (LockTried LOCK_FILE) initial_state\<lparr>lock_file := Some LOCK_FILE\<rparr>"
  have acq: "acquire_lock ?low initial_state = (True, ?st1)"
    "acquire_lock ?nodb initial_state = (True, ?st1)"
    by (simp_all add: acquire_lock_def Let_def working_env_def initial_state_def log_event_def)
  have nacq: "acquire_lock ?held initial_state = (False, snd (acquire_lock ?held initial_state))"
    using contention_is_not_permission by (simp add: acquire_lock_def Let_def)
  have st1: "events ?st1 = [LockTried LOCK_FILE]" "actual_lock_file ?st1 = LOCK_FILE"
    by (simp_all add: initial_state_def log_event_def)
  have low: "\<not> fst (check_disk_space (disk_free ?low None) MIN_DISK_SPACE_MB False ?st1)"
    by (simp add: check_disk_space_def free_mb_def MIN_DISK_SPACE_MB_def)
  have ok: "fst (check_disk_space (disk_free ?nodb None) MIN_DISK_SPACE_MB False ?st1)"
    by (simp add: check_disk_space_def free_mb_def MIN_DISK_SPACE_MB_def working_env_def)
  have nodb: "db_listing ?nodb = Inr []" by simp
  have init: "files initial_state = []" by (simp add: initial_state_def)
  from early_exit_paths [of ?low initial_state ?st1] acq(1) low st1
  have 1: "events (run_backup_procedure ?low initial_state) =
     [LockTried LOCK_FILE, DiskProbed, NotificationSent 0 0, LockReleased LOCK_FILE]"
    by simp
  from early_exit_paths [of ?nodb initial_state ?st1] acq(2) ok nodb st1
  have 2: "\<exists>retries. events (run_backup_procedure ?nodb initial_state) =
      [LockTried LOCK_FILE, DiskProbed, HealthChecked, RetryPassRun] @ retries @
      [DatabasesListed, NotificationSent 0 0, LockReleased LOCK_FILE]"
    by auto
  from early_exit_paths [of ?held initial_state "snd (acquire_lock ?held initial_state)"] nacq init
  have 3: "files (run_backup_procedure ?held initial_state) = []"
    by simp
  from 1 2 3 show ?thesis by blast
qed

subsection \<open>The local retention sweep\<close>

lemma in_directory_split:
  assumes "in_directory d p"
  shows "p = d @ ''/'' @ drop (length d + 1) p"
proof -
  from assms obtain zs where "p = (d @ ''/'') @ zs"
    by (auto simp: in_directory_def prefix_def)
  then show ?thesis by simp
qed

lemma path_name_in_directory:
  assumes "in_directory d p"
  shows "path_name p = drop (length d + 1) p"
proof -
  let ?n = "drop (length d + 1) p"
  have p: "p = d @ ''/'' @ ?n" using assms by (rule in_directory_split)
  have n: "CHR ''/'' \<notin> set ?n" using assms by (simp add: in_directory_def)
  have "rev p = rev ?n @ CHR ''/'' # rev d" by (subst p) simp
  then have "takeWhile (\<lambda>c. c \<noteq> CHR ''/'') (rev p) = rev ?n"
    using n by (auto simp: takeWhile_tail)
  then show ?thesis by (simp add: path_name_def)
qed

lemma artifact_not_ledger_file:
  assumes "artifact p"
  shows "path_name p \<noteq> ''.failed_uploads.json''"
proof
  assume "path_name p = ''.failed_uploads.json''"
  moreover from assms have "suffix ''.sql.gz'' (path_name p)"
    using path_name_in_directory [of BACKUP_DIR p] by (simp add: artifact_def glob_matches_def)
  ultimately have "suffix ''.sql.gz'' ''.failed_uploads.json''" by simp
  then show False by (simp add: suffix_to_prefix)
qed

lemma artifact_not_temp:
  assumes "artifact p"
  shows "\<not> glob_matches TEMP_DIR ''.sql'' p"
proof
  assume "glob_matches TEMP_DIR ''.sql'' p"
  then obtain zs where "p = BACKUP_DIR @ ''/tmp/'' @ zs"
    by (auto simp: glob_matches_def in_directory_def prefix_def TEMP_DIR_def)
  then have "CHR ''/'' \<in> set (drop (length BACKUP_DIR + 1) p)" by simp
  with assms show False by (simp add: artifact_def glob_matches_def in_directory_def)
qed

lemma cleanup_temp_effect:
  "files (cleanup_temp env xs st) =
     filter (\<lambda>(q, t). \<not> (q \<in> fst ` set xs \<and> unlink_ok env q)) (files st) \<and>
   failed_uploads (cleanup_temp env xs st) = failed_uploads st"
proof (induction xs arbitrary: st)
  case Nil
  then show ?case by simp
next
  case (Cons x xs)
  obtain p t where x: "x = (p, t)" by (cases x)
  show ?case
    unfolding x by (auto simp: Cons.IH intro!: filter_cong)
qed

lemma cleanup_one_effect:
  assumes "path_name p \<noteq> ''.failed_uploads.json''"
  shows "files (snd (cleanup_one env c (p, t) (n, st))) =
           (if unlink_ok env p \<and> sweep_condition c (map_of (failed_uploads st)) p t
            then filter (\<lambda>(q, u). q \<noteq> p) (files st) else files st) \<and>
         map_of (failed_uploads (snd (cleanup_one env c (p, t) (n, st)))) =
           (if unlink_ok env p \<and> sweep_condition c (map_of (failed_uploads st)) p t
            then (map_of (failed_uploads st))(p := None) else map_of (failed_uploads st))"
  using assms
  by (cases "map_of (failed_uploads st) p")
     (auto simp: cleanup_one_def sweep_condition_def Let_def delete_conv)

lemma sweep_condition_other:
  "q \<noteq> p \<Longrightarrow> sweep_condition c (m(p := None)) q t = sweep_condition c m q t"
  by (simp add: sweep_condition_def)

lemma cleanup_loop_effect:
  assumes "distinct (map fst xs)"
    and "\<forall>(p, t) \<in> set xs. path_name p \<noteq> ''.failed_uploads.json''"
  shows "set (files (snd (cleanup_loop env c xs (n, st)))) =
           {(q, u) \<in> set (files st).
              \<not> (\<exists>t. (q, t) \<in> set xs \<and> unlink_ok env q \<and>
                   sweep_condition c (map_of (failed_uploads st)) q t)} \<and>
         (\<forall>k. map_of (failed_uploads (snd (cleanup_loop env c xs (n, st)))) k =
            (if \<exists>t. (k, t) \<in> set xs \<and> unlink_ok env k \<and>
                  sweep_condition c (map_of (failed_uploads st)) k t
             then None else map_of (failed_uploads st) k))"
  using assms
proof (induction xs arbitrary: n st)
  case Nil
  then show ?case by simp
next
  case (Cons x xs)
  obtain p t where x: "x = (p, t)" by (cases x)
  obtain n1 st1 where one: "cleanup_one env c (p, t) (n, st) = (n1, st1)" by (metis surj_pair)
  let ?L = "map_of (failed_uploads st)"
  let ?d = "unlink_ok env p \<and> sweep_condition c ?L p t"
  have pn: "path_name p \<noteq> ''.failed_uploads.json''" using Cons.prems(2) x by simp
  have f1: "files st1 = (if ?d then filter (\<lambda>(q, u). q \<noteq> p) (files st) else files st)"
    and l1: "map_of (failed_uploads st1) = (if ?d then ?L(p := None) else ?L)"
    using cleanup_one_effect [OF pn, of env c t n st] one by simp_all
  have notin: "\<And>t'. (p, t') \<notin> set xs"
    using Cons.prems(1) x by (auto simp: image_iff)
  have same: "sweep_condition c (map_of (failed_uploads st1)) q t' =
              sweep_condition c ?L q t'" if "(q, t') \<in> set xs" for q t'
  proof -
    from that notin have "q \<noteq> p" by auto
    then show ?thesis by (simp add: l1 sweep_condition_other)
  qed
  have IH: "set (files (snd (cleanup_loop env c xs (n1, st1)))) =
           {(q, u) \<in> set (files st1).
              \<not> (\<exists>t. (q, t) \<in> set xs \<and> unlink_ok env q \<and>
                   sweep_condition c (map_of (failed_uploads st1)) q t)} \<and>
         (\<forall>k. map_of (failed_uploads (snd (cleanup_loop env c xs (n1, st1)))) k =
            (if \<exists>t. (k, t) \<in> set xs \<and> unlink_ok env k \<and>
                  sweep_condition c (map_of (failed_uploads st1)) k t
             then None else map_of (failed_uploads st1) k))"
    using Cons.IH [of n1 st1] Cons.prems by simp
  have loop: "cleanup_loop env c (x # xs) (n, st) = cleanup_loop env c xs (n1, st1)"
    by (simp add: x one)
  have files_eq: "set (files (snd (cleanup_loop env c xs (n1, st1)))) =
           {(q, u) \<in> set (files st).
              \<not> (\<exists>t'. (q, t') \<in> set (x # xs) \<and> unlink_ok env q \<and>
                   sweep_condition c ?L q t')}"
  proof -
    have "set (files (snd (cleanup_loop env c xs (n1, st1)))) =
           {(q, u) \<in> set (files st1).
              \<not> (\<exists>t'. (q, t') \<in> set xs \<and> unlink_ok env q \<and> sweep_condition c ?L q t')}"
      using IH same by auto
    also have "\<dots> = {(q, u) \<in> set (files st).
              \<not> (\<exists>t'. (q, t') \<in> set (x # xs) \<and> unlink_ok env q \<and>
                   sweep_condition c ?L q t')}"
      using notin by (cases ?d) (auto simp: f1 x)
    finally show ?thesis .
  qed
  have ledger_eq: "map_of (failed_uploads (snd (cleanup_loop env c xs (n1, st1)))) k =
            (if \<exists>t'. (k, t') \<in> set (x # xs) \<and> unlink_ok env k \<and> sweep_condition c ?L k t'
             then None else ?L k)" for k
  proof -
    have "map_of (failed_uploads (snd (cleanup_loop env c xs (n1, st1)))) k =
            (if \<exists>t'. (k, t') \<in> set xs \<and> unlink_ok env k \<and> sweep_condition c ?L k t'
             then None else map_of (failed_uploads st1) k)"
      using IH same by auto
    also have "\<dots> = (if \<exists>t'. (k, t') \<in> set (x # xs) \<and> unlink_ok env k \<and> sweep_condition c ?L k t'
             then None else ?L k)"
      using notin by (cases ?d) (auto simp: l1 x)
    finally show ?thesis .
  qed
  show ?case unfolding loop using files_eq ledger_eq by blast
qed

lemma cleanup_local_backups_effect:
  assumes "distinct (map fst (files st))"
  shows "set (files (snd (cleanup_local_backups env st))) =
           {(q, u) \<in> set (files st).
              \<not> (glob_matches TEMP_DIR ''.sql'' q \<and> unlink_ok env q) \<and>
              \<not> (artifact q \<and> unlink_ok env q \<and>
                 sweep_condition (local_cutoff env) (map_of (failed_uploads st)) q u)}"
    and "map_of (failed_uploads (snd (cleanup_local_backups env st))) k =
           (if \<exists>t. (k, t) \<in> set (files st) \<and> artifact k \<and> unlink_ok env k \<and>
                 sweep_condition (local_cutoff env) (map_of (failed_uploads st)) k t
            then None else map_of (failed_uploads st) k)"
proof -
  let ?c = "local_cutoff env"
  let ?L = "map_of (failed_uploads st)"
  let ?st1 = "cleanup_temp env (glob TEMP_DIR ''.sql'' st) st"
  let ?xs = "glob BACKUP_DIR ''.sql.gz'' ?st1"
  have f1: "set (files ?st1) =
      {(q, u) \<in> set (files st). \<not> (glob_matches TEMP_DIR ''.sql'' q \<and> unlink_ok env q)}"
    by (auto simp: cleanup_temp_effect glob_def image_iff)
  have l1: "failed_uploads ?st1 = failed_uploads st"
    by (simp add: cleanup_temp_effect)
  have d1: "distinct (map fst (files ?st1))"
    using assms by (simp add: cleanup_temp_effect distinct_map_filter)
  have "set ?xs = {(q, u) \<in> set (files ?st1). artifact q}"
    unfolding glob_def [of BACKUP_DIR] artifact_def by auto
  then have xs: "set ?xs = {(q, u) \<in> set (files st). artifact q}"
    unfolding f1 using artifact_not_temp by auto
  have dxs: "distinct (map fst ?xs)"
    unfolding glob_def [of BACKUP_DIR] using d1 by (rule distinct_map_filter)
  have nxs: "\<forall>(p, t) \<in> set ?xs. path_name p \<noteq> ''.failed_uploads.json''"
    using artifact_not_ledger_file by (auto simp: xs)
  have same: "t = u" if "(q, t) \<in> set (files st)" "(q, u) \<in> set (files st)" for q t u
    using assms that by (rule eq_key_imp_eq_value)
  note eff = cleanup_loop_effect [OF dxs nxs, of env ?c 0 ?st1, unfolded l1]
  have r: "cleanup_local_backups env st = cleanup_loop env ?c ?xs (0, ?st1)"
    by (simp add: cleanup_local_backups_def Let_def)
  show "set (files (snd (cleanup_local_backups env st))) =
           {(q, u) \<in> set (files st).
              \<not> (glob_matches TEMP_DIR ''.sql'' q \<and> unlink_ok env q) \<and>
              \<not> (artifact q \<and> unlink_ok env q \<and> sweep_condition ?c ?L q u)}"
    unfolding r using eff same by (auto simp: xs f1)
  show "map_of (failed_uploads (snd (cleanup_local_backups env st))) k =
           (if \<exists>t. (k, t) \<in> set (files st) \<and> artifact k \<and> unlink_ok env k \<and>
                 sweep_condition ?c ?L k t
            then None else ?L k)"
    unfolding r using eff by (auto simp: xs)
qed

text \<open>
  C5. Let the local files have one entry per path. The local sweep deletes the artifact
  \<open>p\<close> of modification time \<open>t\<close> exactly when its \<open>unlink\<close> does not raise and either
  (a) \<open>t\<close> is before the cutoff (now minus 7 days) and the ledger has no entry for \<open>p\<close>, or
  (b) the ledger entry of \<open>p\<close> has \<open>retry_count\<close> at least 3, whatever \<open>t\<close>; every other
  artifact stays, with its modification time. No file appears. The ledger loses exactly
  the entries of the artifacts deleted under (b), in the same pass.
\<close>

theorem cleanup_local_backups_deletes:
  assumes "distinct (map fst (files st))"
  shows "(\<forall>(p, t) \<in> set (files st). artifact p \<longrightarrow>
            ((p, t) \<notin> set (files (snd (cleanup_local_backups env st))) \<longleftrightarrow>
             unlink_ok env p \<and>
             ((t < local_cutoff env \<and> map_of (failed_uploads st) p = None) \<or>
              (\<exists>info. map_of (failed_uploads st) p = Some info \<and>
                 retry_count info \<ge> MAX_UPLOAD_RETRIES)))) \<and>
         set (files (snd (cleanup_local_backups env st))) \<subseteq> set (files st) \<and>
         (\<forall>k. map_of (failed_uploads (snd (cleanup_local_backups env st))) k =
            (if artifact k \<and> file_exists st k \<and> unlink_ok env k \<and>
                (\<exists>info. map_of (failed_uploads st) k = Some info \<and>
                   retry_count info \<ge> MAX_UPLOAD_RETRIES)
             then None else map_of (failed_uploads st) k))"
proof (intro conjI allI)
  note eff = cleanup_local_backups_effect [OF assms, of env]
  have sc: "sweep_condition c m p t \<longleftrightarrow>
      ((t < c \<and> m p = None) \<or> (\<exists>info. m p = Some info \<and> retry_count info \<ge> MAX_UPLOAD_RETRIES))"
    for c m p t
    by (cases "m p") (simp_all add: sweep_condition_def)
  show "\<forall>(p, t) \<in> set (files st). artifact p \<longrightarrow>
            ((p, t) \<notin> set (files (snd (cleanup_local_backups env st))) \<longleftrightarrow>
             unlink_ok env p \<and>
             ((t < local_cutoff env \<and> map_of (failed_uploads st) p = None) \<or>
              (\<exists>info. map_of (failed_uploads st) p = Some info \<and>
                 retry_count info \<ge> MAX_UPLOAD_RETRIES)))"
    using artifact_not_temp by (auto simp: eff(1) sc)
  show "set (files (snd (cleanup_local_backups env st))) \<subseteq> set (files st)"
    by (auto simp: eff(1))
  fix k
  show "map_of (failed_uploads (snd (cleanup_local_backups env st))) k =
            (if artifact k \<and> file_exists st k \<and> unlink_ok env k \<and>
                (\<exists>info. map_of (failed_uploads st) k = Some info \<and>
                   retry_count info \<ge> MAX_UPLOAD_RETRIES)
             then None else map_of (failed_uploads st) k)"
    by (auto simp: eff(2) sc file_exists_def image_iff)
qed

lemmas calendar_defs =
  to_us_def toordinal_def days_before_year_def days_before_month_def days_in_month_def
  is_leap_def DAY_US_def upt_conv_Cons

lemma working_env_cutoffs:
  "local_cutoff working_env = 63852289200000000"
  "remote_cutoff working_env = 63821358000000000"
  by (simp_all add: local_cutoff_def remote_cutoff_def working_env_def calendar_defs
      LOCAL_RETENTION_DAYS_def RETENTION_DAYS_def)

lemma sweep_state_times: "month_old = 63850215607000000" "day_old = 63852807607000000"
  by (simp_all add: month_old_def day_old_def calendar_defs)

lemma sweep_state_artifacts:
  "artifact ''/var/backups/pgbackup/app_db_20240501_030007_000001.sql.gz''"
  "artifact ''/var/backups/pgbackup/analytics_20240531_030007_000002.sql.gz''"
  "artifact ''/var/backups/pgbackup/sales_20240531_030007_000003.sql.gz''"
  "artifact ''/var/backups/pgbackup/crm_20240501_030007_000004.sql.gz''"
  by (simp_all add: artifact_def glob_matches_def in_directory_def BACKUP_DIR_def suffix_to_prefix)

theorem cleanup_local_backups_deletes_witness:
  "distinct (map fst (files sweep_state)) \<and>
   (''/var/backups/pgbackup/app_db_20240501_030007_000001.sql.gz'', month_old)
     \<notin> set (files (snd (cleanup_local_backups working_env sweep_state))) \<and>
   (''/var/backups/pgbackup/analytics_20240531_030007_000002.sql.gz'', day_old)
     \<notin> set (files (snd (cleanup_local_backups working_env sweep_state))) \<and>
   (''/var/backups/pgbackup/sales_20240531_030007_000003.sql.gz'', day_old)
     \<in> set (files (snd (cleanup_local_backups working_env sweep_state))) \<and>
   (''/var/backups/pgbackup/crm_20240501_030007_000004.sql.gz'', month_old)
     \<in> set (files (snd (cleanup_local_backups working_env sweep_state))) \<and>
   map_of (failed_uploads (snd (cleanup_local_backups working_env sweep_state)))
     ''/var/backups/pgbackup/analytics_20240531_030007_000002.sql.gz'' = None \<and>
   map_of (failed_uploads (snd (cleanup_local_backups working_env sweep_state)))
     ''/var/backups/pgbackup/crm_20240501_030007_000004.sql.gz'' =
     Some \<lparr>first_failure = month_old, retry_count = 0, last_attempt = month_old\<rparr>"
proof -
  have d: "distinct (map fst (files sweep_state))"
    by (simp add: sweep_state_def)
  have u: "unlink_ok working_env p" for p
    by (simp add: working_env_def)
  note t = cleanup_local_backups_deletes [OF d, of working_env]
  from t have files: "\<forall>(p, t) \<in> set (files sweep_state). artifact p \<longrightarrow>
            ((p, t) \<notin> set (files (snd (cleanup_local_backups working_env sweep_state))) \<longleftrightarrow>
             unlink_ok working_env p \<and>
             ((t < local_cutoff working_env \<and> map_of (failed_uploads sweep_state) p = None) \<or>
              (\<exists>info. map_of (failed_uploads sweep_state) p = Some info \<and>
                 retry_count info \<ge> MAX_UPLOAD_RETRIES)))"
    by blast
  from t have ledger: "map_of (failed_uploads (snd (cleanup_local_backups working_env sweep_state))) k =
            (if artifact k \<and> file_exists sweep_state k \<and> unlink_ok working_env k \<and>
                (\<exists>info. map_of (failed_uploads sweep_state) k = Some info \<and>
                   retry_count info \<ge> MAX_UPLOAD_RETRIES)
             then None else map_of (failed_uploads sweep_state) k)" for k
    by blast
  have step: "(p, t) \<notin> set (files (snd (cleanup_local_backups working_env sweep_state))) \<longleftrightarrow>
      ((t < 63852289200000000 \<and> map_of (failed_uploads sweep_state) p = None) \<or>
       (\<exists>info. map_of (failed_uploads sweep_state) p = Some info \<and> retry_count info \<ge> 3))"
    if "(p, t) \<in> set (files sweep_state)" "artifact p" for p t
    using files that u by (auto simp: working_env_cutoffs MAX_UPLOAD_RETRIES_def)
  have fs: "files sweep_state =
        [(''/var/backups/pgbackup/app_db_20240501_030007_000001.sql.gz'', month_old),
         (''/var/backups/pgbackup/analytics_20240531_030007_000002.sql.gz'', day_old),
         (''/var/backups/pgbackup/sales_20240531_030007_000003.sql.gz'', day_old),
         (''/var/backups/pgbackup/crm_20240501_030007_000004.sql.gz'', month_old)]"
    and lg: "failed_uploads sweep_state =
        [(''/var/backups/pgbackup/analytics_20240531_030007_000002.sql.gz'',
          \<lparr>first_failure = day_old, retry_count = 3, last_attempt = day_old\<rparr>),
         (''/var/backups/pgbackup/crm_20240501_030007_000004.sql.gz'',
          \<lparr>first_failure = month_old, retry_count = 0, last_attempt = month_old\<rparr>)]"
    by (simp_all add: sweep_state_def)
  have 1: "(''/var/backups/pgbackup/app_db_20240501_030007_000001.sql.gz'', month_old)
     \<notin> set (files (snd (cleanup_local_backups working_env sweep_state)))"
    by (subst step) (simp_all add: fs lg sweep_state_artifacts sweep_state_times)
  have 2: "(''/var/backups/pgbackup/analytics_20240531_030007_000002.sql.gz'', day_old)
     \<notin> set (files (snd (cleanup_local_backups working_env sweep_state)))"
    by (subst step) (simp_all add: fs lg sweep_state_artifacts sweep_state_times)
  have 3: "\<not> (''/var/backups/pgbackup/sales_20240531_030007_000003.sql.gz'', day_old)
     \<notin> set (files (snd (cleanup_local_backups working_env sweep_state)))"
    by (subst step) (simp_all add: fs lg sweep_state_artifacts sweep_state_times)
  have 4: "\<not> (''/var/backups/pgbackup/crm_20240501_030007_000004.sql.gz'', month_old)
     \<notin> set (files (snd (cleanup_local_backups working_env sweep_state)))"
    by (subst step) (simp_all add: fs lg sweep_state_artifacts sweep_state_times)
  have 5: "map_of (failed_uploads (snd (cleanup_local_backups working_env sweep_state)))
     ''/var/backups/pgbackup/analytics_20240531_030007_000002.sql.gz'' = None"
    by (subst ledger) (simp add: fs lg sweep_state_artifacts u MAX_UPLOAD_RETRIES_def file_exists_def)
  have 6: "map_of (failed_uploads (snd (cleanup_local_backups working_env sweep_state)))
     ''/var/backups/pgbackup/crm_20240501_030007_000004.sql.gz'' =
     Some \<lparr>first_failure = month_old, retry_count = 0, last_attempt = month_old\<rparr>"
    by (subst ledger) (simp add: fs lg sweep_state_artifacts u MAX_UPLOAD_RETRIES_def file_exists_def)
  from d 1 2 3 4 5 6 show ?thesis by blast
qed

subsection \<open>Uploads and the ledger\<close>

lemma mark_upload_failed_ledger:
  "map_of (failed_uploads (mark_upload_failed env f st)) =
     (map_of (failed_uploads st))
       (f \<mapsto> (case map_of (failed_uploads st) f of
                 None \<Rightarrow> \<lparr>first_failure = to_us (now env), retry_count = 0,
                           last_attempt = to_us (now env)\<rparr>
               | Some info \<Rightarrow> info\<lparr>retry_count := retry_count info + 1,
                                   last_attempt := to_us (now env)\<rparr>))"
  by (cases "map_of (failed_uploads st) f") (simp_all add: mark_upload_failed_def update_conv')

lemma mark_upload_success_ledger:
  "map_of (failed_uploads (mark_upload_success f st)) = (map_of (failed_uploads st))(f := None)"
  by (auto simp: mark_upload_success_def delete_conv')

text \<open>An upload succeeds exactly when the three local checks pass and nothing is raised.\<close>

lemma upload_to_azure_succeeds_iff:
  "fst (upload_to_azure env f r st) \<longleftrightarrow>
     credentials_configured env \<and> key_is_base64 env \<and> client_created env \<and>
     blob_upload env f = None"
  by (simp add: upload_to_azure_def Let_def split: option.split failure.split)

lemma upload_to_azure_success_ledger:
  assumes "fst (upload_to_azure env f r st)"
  shows "map_of (failed_uploads (snd (upload_to_azure env f r st))) =
           (map_of (failed_uploads st))(f := None)"
  using assms
  by (simp add: upload_to_azure_def Let_def mark_upload_success_ledger
      split: option.splits failure.splits if_splits)

lemma upload_to_azure_failure_ledger:
  assumes "\<not> fst (upload_to_azure env f False st)"
  shows "failed_uploads (snd (upload_to_azure env f False st)) =
           failed_uploads (mark_upload_failed env f st)"
  using assms
  by (simp add: upload_to_azure_def Let_def mark_upload_failed_def
      split: option.splits failure.splits if_splits)

lemma upload_to_azure_retry_failure_ledger:
  assumes "\<not> fst (upload_to_azure env f True st)"
  shows "failed_uploads (snd (upload_to_azure env f True st)) = failed_uploads st"
  using assms
  by (simp add: upload_to_azure_def Let_def split: option.splits failure.splits if_splits)

lemma upload_to_azure_files: "files (snd (upload_to_azure env f r st)) = files st"
  by (simp add: upload_to_azure_def Let_def split: option.split failure.split)

text \<open>
  C2 (as amended). An upload that succeeds, retry or not, leaves no ledger entry for the
  artifact. An upload that fails and is not a retry leaves an entry for the artifact whose
  \<open>retry_count\<close> is 0 when there was no entry and the prior count plus one when there was
  one. Neither touches the entry of another artifact.
\<close>

theorem upload_to_azure_ledger:
  "(fst (upload_to_azure env f is_retry st) \<longrightarrow>
      map_of (failed_uploads (snd (upload_to_azure env f is_retry st))) f = None) \<and>
   (\<not> fst (upload_to_azure env f False st) \<longrightarrow>
      (\<exists>info. map_of (failed_uploads (snd (upload_to_azure env f False st))) f = Some info \<and>
         retry_count info =
           (case map_of (failed_uploads st) f of None \<Rightarrow> 0 | Some old \<Rightarrow> retry_count old + 1))) \<and>
   (g \<noteq> f \<longrightarrow>
      map_of (failed_uploads (snd (upload_to_azure env f is_retry st))) g =
      map_of (failed_uploads st) g)"
proof (intro conjI impI)
  assume "fst (upload_to_azure env f is_retry st)"
  then show "map_of (failed_uploads (snd (upload_to_azure env f is_retry st))) f = None"
    by (simp add: upload_to_azure_success_ledger)
next
  assume "\<not> fst (upload_to_azure env f False st)"
  then have "map_of (failed_uploads (snd (upload_to_azure env f False st))) =
      map_of (failed_uploads (mark_upload_failed env f st))"
    by (simp add: upload_to_azure_failure_ledger)
  then show "\<exists>info. map_of (failed_uploads (snd (upload_to_azure env f False st))) f = Some info \<and>
         retry_count info =
           (case map_of (failed_uploads st) f of None \<Rightarrow> 0 | Some old \<Rightarrow> retry_count old + 1)"
    by (cases "map_of (failed_uploads st) f") (simp_all add: mark_upload_failed_ledger)
next
  assume g: "g \<noteq> f"
  show "map_of (failed_uploads (snd (upload_to_azure env f is_retry st))) g =
      map_of (failed_uploads st) g"
  proof (cases "fst (upload_to_azure env f is_retry st)")
    case True
    then show ?thesis using g by (simp add: upload_to_azure_success_ledger)
  next
    case False
    then show ?thesis using g
      by (cases is_retry)
         (simp_all add: upload_to_azure_retry_failure_ledger upload_to_azure_failure_ledger
            mark_upload_failed_ledger)
  qed
qed

lemma sweep_state_ledger:
  "map_of (failed_uploads sweep_state) crm_artifact =
     Some \<lparr>first_failure = month_old, retry_count = 0, last_attempt = month_old\<rparr>"
  "map_of (failed_uploads sweep_state) analytics_artifact =
     Some \<lparr>first_failure = day_old, retry_count = 3, last_attempt = day_old\<rparr>"
  by (simp_all add: sweep_state_def crm_artifact_def analytics_artifact_def)

lemma failing_upload_fails: "\<not> fst (upload_to_azure failing_upload_env f r st)"
  by (simp add: upload_to_azure_succeeds_iff failing_upload_env_def)

lemma working_upload_succeeds: "fst (upload_to_azure working_env f r st)"
  by (simp add: upload_to_azure_succeeds_iff working_env_def)

theorem upload_to_azure_ledger_counterexample:
  "map_of (failed_uploads sweep_state) crm_artifact =
     Some \<lparr>first_failure = month_old, retry_count = 0, last_attempt = month_old\<rparr> \<and>
   \<not> fst (upload_to_azure failing_upload_env crm_artifact False sweep_state) \<and>
   map_of (failed_uploads (snd (upload_to_azure failing_upload_env crm_artifact False sweep_state)))
     crm_artifact =
     Some \<lparr>first_failure = month_old, retry_count = 1, last_attempt = 63852894000000000\<rparr>"
proof -
  have n: "to_us (now failing_upload_env) = 63852894000000000"
    by (simp add: failing_upload_env_def working_env_def to_us_def toordinal_def
        days_before_year_def days_before_month_def days_in_month_def is_leap_def DAY_US_def
        upt_conv_Cons)
  show ?thesis
    by (simp add: sweep_state_ledger failing_upload_fails upload_to_azure_failure_ledger
        mark_upload_failed_ledger n)
qed

theorem upload_to_azure_ledger_witness:
  "\<not> fst (upload_to_azure failing_upload_env analytics_artifact False fresh_state) \<and>
   (\<exists>info. map_of (failed_uploads
       (snd (upload_to_azure failing_upload_env analytics_artifact False fresh_state)))
       analytics_artifact = Some info \<and> retry_count info = 0) \<and>
   (\<exists>info. map_of (failed_uploads
       (snd (upload_to_azure failing_upload_env crm_artifact False sweep_state)))
       crm_artifact = Some info \<and> retry_count info = 1) \<and>
   fst (upload_to_azure working_env crm_artifact False sweep_state) \<and>
   map_of (failed_uploads (snd (upload_to_azure working_env crm_artifact False sweep_state)))
     crm_artifact = None \<and>
   crm_artifact \<noteq> analytics_artifact \<and>
   map_of (failed_uploads (snd (upload_to_azure working_env crm_artifact False sweep_state)))
     analytics_artifact =
     Some \<lparr>first_failure = day_old, retry_count = 3, last_attempt = day_old\<rparr>"
proof -
  have fresh: "map_of (failed_uploads fresh_state) analytics_artifact = None"
    by (simp add: fresh_state_def initial_state_def)
  have ne: "analytics_artifact \<noteq> crm_artifact"
    by (simp add: crm_artifact_def analytics_artifact_def)
  note new = upload_to_azure_ledger [of failing_upload_env analytics_artifact False fresh_state
      analytics_artifact]
    and again = upload_to_azure_ledger [of failing_upload_env crm_artifact False sweep_state
      crm_artifact]
    and uploaded = upload_to_azure_ledger [of working_env crm_artifact False sweep_state
      analytics_artifact]
  from new again uploaded fresh ne show ?thesis
    by (simp add: failing_upload_fails working_upload_succeeds sweep_state_ledger)
qed

subsection \<open>Failed retries and the retry count\<close>

lemma failing_env_clock: "to_us (now failing_upload_env) = 63852894000000000"
  by (simp add: failing_upload_env_def working_env_def to_us_def toordinal_def
      days_before_year_def days_before_month_def days_in_month_def is_leap_def DAY_US_def
      upt_conv_Cons)

text \<open>
  A retry pass in which the upload fails, on a ledger that holds one entry below the
  maximum whose artifact is on disk: one upload attempt is made, and the ledger and the
  files are as before. The failed retry is counted nowhere.
\<close>

lemma failed_retry_pass:
  assumes "failed_uploads st = [(f, info)]" "retry_count info < MAX_UPLOAD_RETRIES"
    and "file_exists st f" "\<not> fst (upload_to_azure env f True st)"
  shows "failed_uploads (snd (retry_failed_uploads env st)) = [(f, info)]"
    and "files (snd (retry_failed_uploads env st)) = files st"
    and "events (snd (retry_failed_uploads env st)) = events st @ [UploadTried f True]"
proof -
  obtain st2 where up: "upload_to_azure env f True st = (False, st2)"
    using assms(4) by (cases "upload_to_azure env f True st") auto
  have st2: "failed_uploads st2 = failed_uploads st" "files st2 = files st"
    "events st2 = events st @ [UploadTried f True]"
    using upload_to_azure_retry_failure_ledger [OF assms(4)] upload_to_azure_files [of env f True st]
      upload_to_azure_events [of env f True st] up by simp_all
  have sr: "should_retry_upload f st = (True, st)"
    using assms(1,2,3) by (simp add: should_retry_upload_def)
  have "snd (retry_failed_uploads env st) = st2"
    using assms(1,3) sr up by (simp add: retry_failed_uploads_def retry_one_def)
  with st2 assms(1) show "failed_uploads (snd (retry_failed_uploads env st)) = [(f, info)]"
    and "files (snd (retry_failed_uploads env st)) = files st"
    and "events (snd (retry_failed_uploads env st)) = events st @ [UploadTried f True]"
    by simp_all
qed

text \<open>
  C1. Here the code does not do what the claim says. The upload of an artifact fails in
  one run and its retries fail in the next two runs: the \<open>retry_count\<close> of its entry is
  then 0, not 3, because a failed retry is never counted. The retry pass of the fourth
  run therefore makes a fourth upload attempt, and leaves the entry in the ledger and the
  artifact on disk.
\<close>

theorem failed_retries_not_counted:
  "failed_uploads after_third_run =
     [(analytics_artifact,
       \<lparr>first_failure = 63852894000000000, retry_count = 0,
          last_attempt = 63852894000000000\<rparr>)] \<and>
   events after_third_run =
     [UploadTried analytics_artifact False, UploadTried analytics_artifact True,
      UploadTried analytics_artifact True] \<and>
   events after_fourth_retry_pass =
     [UploadTried analytics_artifact False, UploadTried analytics_artifact True,
      UploadTried analytics_artifact True, UploadTried analytics_artifact True] \<and>
   failed_uploads after_fourth_retry_pass =
     [(analytics_artifact,
       \<lparr>first_failure = 63852894000000000, retry_count = 0,
          last_attempt = 63852894000000000\<rparr>)] \<and>
   files after_fourth_retry_pass = [(analytics_artifact, day_old)]"
proof -
  let ?e = "\<lparr>first_failure = 63852894000000000, retry_count = 0,
            last_attempt = 63852894000000000\<rparr>"
  have 1: "failed_uploads after_first_run = [(analytics_artifact, ?e)]"
    "files after_first_run = [(analytics_artifact, day_old)]"
    "events after_first_run = [UploadTried analytics_artifact False]"
    unfolding after_first_run_def
    by (simp_all add: upload_to_azure_failure_ledger failing_upload_fails mark_upload_failed_def
        upload_to_azure_files upload_to_azure_events fresh_state_def initial_state_def
        failing_env_clock)
  have pass: "failed_uploads (snd (retry_failed_uploads failing_upload_env st)) =
                [(analytics_artifact, ?e)] \<and>
              files (snd (retry_failed_uploads failing_upload_env st)) =
                [(analytics_artifact, day_old)] \<and>
              events (snd (retry_failed_uploads failing_upload_env st)) =
                events st @ [UploadTried analytics_artifact True]"
    if "failed_uploads st = [(analytics_artifact, ?e)]"
      "files st = [(analytics_artifact, day_old)]" for st
    using failed_retry_pass [of st analytics_artifact ?e failing_upload_env] that
      failing_upload_fails [of analytics_artifact True st]
    by (simp add: MAX_UPLOAD_RETRIES_def file_exists_def)
  have 2: "failed_uploads after_second_run = [(analytics_artifact, ?e)]"
    "files after_second_run = [(analytics_artifact, day_old)]"
    "events after_second_run =
       [UploadTried analytics_artifact False, UploadTried analytics_artifact True]"
    unfolding after_second_run_def using pass [OF 1(1,2)] 1(3) by simp_all
  have 3: "failed_uploads after_third_run = [(analytics_artifact, ?e)]"
    "files after_third_run = [(analytics_artifact, day_old)]"
    "events after_third_run =
       [UploadTried analytics_artifact False, UploadTried analytics_artifact True,
        UploadTried analytics_artifact True]"
    unfolding after_third_run_def using pass [OF 2(1,2)] 2(3) by simp_all
  have 4: "failed_uploads after_fourth_retry_pass = [(analytics_artifact, ?e)]"
    "files after_fourth_retry_pass = [(analytics_artifact, day_old)]"
    "events after_fourth_retry_pass =
       [UploadTried analytics_artifact False, UploadTried analytics_artifact True,
        UploadTried analytics_artifact True, UploadTried analytics_artifact True]"
    unfolding after_fourth_retry_pass_def using pass [OF 3(1,2)] 3(3) by simp_all
  from 3 4 show ?thesis by simp
qed

subsection \<open>The date pattern of the remote sweep\<close>

lemma not_digit_chars [simp]:
  "\<not> is_digit (CHR ''_'')" "\<not> is_digit (CHR ''.'')"
  by (simp_all add: is_digit_def code_point_def)

lemma dropWhile_keeps:
  "y \<in> set xs \<Longrightarrow> \<not> P y \<Longrightarrow> y \<in> set (dropWhile P xs)"
  by (induction xs) auto

lemma stamp_match_at_shape:
  "stamp_match_at s = Some g \<longleftrightarrow>
     (\<exists>t6 n e. s = ''_'' @ g @ ''_'' @ t6 @ ''_'' @ n @ ''.sql.gz'' @ e \<and>
        length g = 8 \<and> list_all is_digit g \<and> length t6 = 6 \<and> list_all is_digit t6 \<and>
        n \<noteq> [] \<and> list_all is_digit n \<and> (e = [] \<or> e = [CHR 0x0A]))"
    (is "?L \<longleftrightarrow> ?R")
proof
  assume ?L
  let ?rest = "drop 17 s"
  let ?t6 = "take 6 (drop 10 s)"
  let ?n = "takeWhile is_digit ?rest"
  let ?tail = "dropWhile is_digit ?rest"
  from \<open>?L\<close> have c: "take 1 s = ''_''" "length (take 8 (drop 1 s)) = 8"
    "list_all is_digit (take 8 (drop 1 s))" "take 1 (drop 9 s) = ''_''"
    "length ?t6 = 6" "list_all is_digit ?t6" "take 1 (drop 16 s) = ''_''"
    "?n \<noteq> []" "?tail = ''.sql.gz'' \<or> ?tail = ''.sql.gz'' @ [CHR 0x0A]"
    and g: "g = take 8 (drop 1 s)"
    by (auto simp: stamp_match_at_def Let_def split: if_splits)
  obtain e where e: "?tail = ''.sql.gz'' @ e" "e = [] \<or> e = [CHR 0x0A]"
    using c(9) by auto
  have "s = take 1 s @ drop 1 s" by simp
  also have "drop 1 s = take 8 (drop 1 s) @ drop 9 s"
    using append_take_drop_id [of 8 "drop 1 s"] by simp
  also have "drop 9 s = take 1 (drop 9 s) @ drop 10 s"
    using append_take_drop_id [of 1 "drop 9 s"] by simp
  also have "drop 10 s = ?t6 @ drop 16 s"
    using append_take_drop_id [of 6 "drop 10 s"] by simp
  also have "drop 16 s = take 1 (drop 16 s) @ ?rest"
    using append_take_drop_id [of 1 "drop 16 s"] by simp
  also have "?rest = ?n @ ?tail" by simp
  finally have "s = ''_'' @ g @ ''_'' @ ?t6 @ ''_'' @ ?n @ ''.sql.gz'' @ e"
    using c(1,4,7) g e(1) by simp
  moreover have "list_all is_digit ?n"
    by (simp add: list_all_iff) (meson set_takeWhileD)
  ultimately show ?R using c g e(2) by blast
next
  assume ?R
  then obtain t6 n e where s: "s = ''_'' @ g @ ''_'' @ t6 @ ''_'' @ n @ ''.sql.gz'' @ e"
    and h: "length g = 8" "list_all is_digit g" "length t6 = 6" "list_all is_digit t6"
      "n \<noteq> []" "list_all is_digit n" "e = [] \<or> e = [CHR 0x0A]"
    by blast
  have r: "drop 17 s = n @ ''.sql.gz'' @ e"
    using h(1,3) by (simp add: s)
  have tw: "takeWhile is_digit (n @ ''.sql.gz'' @ e) = n"
    "dropWhile is_digit (n @ ''.sql.gz'' @ e) = ''.sql.gz'' @ e"
    using h(6) by (simp_all add: list_all_iff takeWhile_tail dropWhile_append3)
  show ?L
    using h tw unfolding stamp_match_at_def Let_def r
    by (auto simp: s)
qed

lemma stamp_match_at_no_underscore:
  assumes "stamp_match_at s = Some g"
  shows "CHR ''_'' \<notin> set (drop 17 s)"
proof
  assume u: "CHR ''_'' \<in> set (drop 17 s)"
  have "CHR ''_'' \<in> set (dropWhile is_digit (drop 17 s))"
    using u by (rule dropWhile_keeps) simp
  moreover from assms have "dropWhile is_digit (drop 17 s) = ''.sql.gz'' \<or>
      dropWhile is_digit (drop 17 s) = ''.sql.gz'' @ [CHR 0x0A]"
    by (auto simp: stamp_match_at_def Let_def split: if_splits)
  ultimately show False by auto
qed

lemma stamp_match_at_underscore:
  assumes "stamp_match_at s = Some g"
  shows "16 < length s \<and> s ! 16 = CHR ''_''"
proof -
  from assms have "take 1 (drop 16 s) = ''_''"
    by (auto simp: stamp_match_at_def Let_def split: if_splits)
  then obtain r where r: "drop 16 s = CHR ''_'' # r"
    by (cases "drop 16 s") auto
  have l: "16 < length s"
  proof (rule ccontr)
    assume "\<not> 16 < length s"
    then have "drop 16 s = []" by simp
    with r show False by simp
  qed
  then have "hd (drop 16 s) = s ! 16" by (rule hd_drop_conv_nth)
  with r l show ?thesis by simp
qed

text \<open>Two matches cannot end at the same place: the pattern has one match at most.\<close>

lemma stamp_match_at_earlier:
  assumes "stamp_match_at m = Some g" "q \<noteq> []"
  shows "stamp_match_at (q @ m) = None"
proof (rule ccontr)
  assume "stamp_match_at (q @ m) \<noteq> None"
  then obtain g' where "stamp_match_at (q @ m) = Some g'" by auto
  then have no: "CHR ''_'' \<notin> set (drop 17 (q @ m))"
    by (rule stamp_match_at_no_underscore)
  from assms(1) have m: "16 < length m" "m ! 16 = CHR ''_''"
    using stamp_match_at_underscore by blast+
  have nth: "(q @ m) ! (length q + 16) = CHR ''_''"
    using m by (simp add: nth_append)
  have q1: "1 \<le> length q" using assms(2) by (cases q) simp_all
  have "drop 17 (q @ m) ! (length q - 1) = (q @ m) ! (17 + (length q - 1))"
    by (rule nth_drop) (use m q1 in simp)
  also have "17 + (length q - 1) = length q + 16" using q1 by simp
  finally have "drop 17 (q @ m) ! (length q - 1) = CHR ''_''" using nth by simp
  moreover have "length q - 1 < length (drop 17 (q @ m))" using m q1 by simp
  ultimately have "CHR ''_'' \<in> set (drop 17 (q @ m))"
    by (metis nth_mem)
  with no show False by simp
qed

lemma re_search_suffix:
  assumes "stamp_match_at m = Some g"
  shows "re_search (pre @ m) = Some g"
proof (induction pre)
  case Nil
  from assms show ?case by (cases m) simp_all
next
  case (Cons c pre)
  have "stamp_match_at ((c # pre) @ m) = None"
    using assms by (rule stamp_match_at_earlier) simp
  then show ?case using Cons.IH by simp
qed

lemma re_search_found:
  "re_search s = Some g \<Longrightarrow> \<exists>pre m. s = pre @ m \<and> stamp_match_at m = Some g"
proof (induction s)
  case Nil
  then show ?case by simp
next
  case (Cons c cs)
  show ?case
  proof (cases "stamp_match_at (c # cs)")
    case None
    with Cons obtain pre m where "cs = pre @ m" "stamp_match_at m = Some g" by auto
    then show ?thesis by (intro exI [of _ "c # pre"] exI [of _ m]) simp
  next
    case (Some g')
    with Cons.prems have "stamp_match_at (c # cs) = Some g" by simp
    then show ?thesis by (intro exI [of _ "[]"] exI [of _ "c # cs"]) simp
  qed
qed

text \<open>\<open>re.search\<close> with the pattern of the sweep finds the group \<open>g\<close> exactly in the names
  that end as the naming pattern says.\<close>

lemma re_search_iff: "re_search name = Some g \<longleftrightarrow> trailing_stamp name g"
proof
  assume "re_search name = Some g"
  then obtain pre m where "name = pre @ m" "stamp_match_at m = Some g"
    using re_search_found by blast
  then show "trailing_stamp name g"
    unfolding trailing_stamp_def stamp_match_at_shape by blast
next
  assume "trailing_stamp name g"
  then obtain pre t6 n e where n: "name = pre @ (''_'' @ g @ ''_'' @ t6 @ ''_'' @ n @ ''.sql.gz'' @ e)"
    and h: "length g = 8" "list_all is_digit g" "length t6 = 6" "list_all is_digit t6"
      "n \<noteq> []" "list_all is_digit n" "e = [] \<or> e = [CHR 0x0A]"
    unfolding trailing_stamp_def by auto
  have "stamp_match_at (''_'' @ g @ ''_'' @ t6 @ ''_'' @ n @ ''.sql.gz'' @ e) = Some g"
    unfolding stamp_match_at_shape using h by blast
  then show "re_search name = Some g"
    unfolding n by (rule re_search_suffix)
qed

subsection \<open>Artifact names and the date the sweep reads from them\<close>

lemma digit_char_is_digit: "d < 10 \<Longrightarrow> is_digit (digit_char d)"
  by (simp add: is_digit_def digit_char_def code_point_def)

lemma digit_val_digit_char: "d < 10 \<Longrightarrow> digit_val (digit_char d) = d"
  by (simp add: digit_val_def digit_char_def code_point_def)

lemma length_fixed_digits [simp]: "length (fixed_digits w n) = w"
  by (induction w arbitrary: n) simp_all

lemma fixed_digits_are_digits: "list_all is_digit (fixed_digits w n)"
  by (induction w arbitrary: n) (simp_all add: digit_char_is_digit)

lemma int_of_digits_snoc: "int_of_digits (s @ [c]) = 10 * int_of_digits s + digit_val c"
  by (simp add: int_of_digits_def)

lemma int_of_fixed_digits: "int_of_digits (fixed_digits w n) = n mod 10 ^ w"
proof (induction w arbitrary: n)
  case 0
  then show ?case by (simp add: int_of_digits_def)
next
  case (Suc w)
  have "int_of_digits (fixed_digits (Suc w) n) = 10 * (n div 10 mod 10 ^ w) + n mod 10"
    by (simp add: int_of_digits_snoc Suc.IH digit_val_digit_char)
  also have "\<dots> = n mod (10 * 10 ^ w)"
    by (simp add: mod_mult2_eq)
  finally show ?case by simp
qed

lemma strptime_strftime_date:
  assumes "valid_datetime t"
  shows "strptime_Ymd (strftime_date t) = Some (date_of t)"
proof -
  let ?y = "fixed_digits 4 (year t)" and ?m = "fixed_digits 2 (month t)"
    and ?d = "fixed_digits 2 (day t)"
  have parts: "take 4 (strftime_date t) = ?y" "take 2 (drop 4 (strftime_date t)) = ?m"
    "drop 6 (strftime_date t) = ?d"
    by (simp_all add: strftime_date_def)
  from assms have r: "1 \<le> year t" "year t \<le> 9999" "1 \<le> month t" "month t \<le> 12"
    "1 \<le> day t" "day t \<le> days_in_month (year t) (month t)"
    by (simp_all add: valid_datetime_def)
  have "days_in_month (year t) (month t) \<le> 31" by (simp add: days_in_month_def)
  with r have v: "year t mod 10 ^ 4 = year t" "month t mod 10 ^ 2 = month t"
    "day t mod 10 ^ 2 = day t"
    by simp_all
  show ?thesis
    unfolding strptime_Ymd_def parts int_of_fixed_digits v Let_def
    using r by (simp add: date_of_def)
qed

lemma stamp_match_at_stamp:
  "stamp_match_at (''_'' @ strftime_stamp t @ ''.sql.gz'') = Some (strftime_date t)"
proof -
  have "''_'' @ strftime_stamp t @ ''.sql.gz'' =
      ''_'' @ strftime_date t @ ''_'' @
      (fixed_digits 2 (hour t) @ fixed_digits 2 (minute t) @ fixed_digits 2 (second t)) @
      ''_'' @ fixed_digits 6 (microsecond t) @ ''.sql.gz'' @ []"
    by (simp add: strftime_stamp_def)
  moreover have "length (strftime_date t) = 8" "list_all is_digit (strftime_date t)"
    by (simp_all add: strftime_date_def fixed_digits_are_digits)
  moreover have "length (fixed_digits 2 (hour t) @ fixed_digits 2 (minute t) @
      fixed_digits 2 (second t)) = 6"
    "list_all is_digit (fixed_digits 2 (hour t) @ fixed_digits 2 (minute t) @
      fixed_digits 2 (second t))"
    by (simp_all add: fixed_digits_are_digits)
  moreover have "fixed_digits 6 (microsecond t) \<noteq> []"
    "list_all is_digit (fixed_digits 6 (microsecond t))"
    by (simp_all add: fixed_digits_are_digits flip: length_0_conv)
  ultimately show ?thesis
    unfolding stamp_match_at_shape by blast
qed

lemma filename_safe_not_slash: "filename_safe c \<Longrightarrow> c \<noteq> CHR ''/''"
  using slash_dot_unsafe(1) by auto

lemma is_digit_not_slash: "is_digit c \<Longrightarrow> c \<noteq> CHR ''/''"
  by (auto simp: is_digit_def code_point_def)

lemma fixed_digits_no_slash: "CHR ''/'' \<notin> set (fixed_digits w n)"
  using fixed_digits_are_digits [of w n] is_digit_not_slash by (auto simp: list_all_iff)

lemma backup_file_name_no_slash: "CHR ''/'' \<notin> set (backup_file_name db_name t)"
proof -
  have "CHR ''/'' \<notin> set (sanitize_filename db_name)"
  proof
    assume "CHR ''/'' \<in> set (sanitize_filename db_name)"
    then have "CHR ''/'' \<in> set (map (\<lambda>c. if filename_safe c then c else CHR ''_'') db_name)"
      unfolding sanitize_filename_def by (rule in_set_takeD)
    then show False using filename_safe_not_slash by auto
  qed
  then show ?thesis
    by (simp add: backup_file_name_def strftime_stamp_def strftime_date_def fixed_digits_no_slash)
qed

lemma path_name_backup_file_path:
  "path_name (backup_file_path db_name t) = backup_file_name db_name t"
proof -
  have "rev (backup_file_path db_name t) =
      rev (backup_file_name db_name t) @ CHR ''/'' # rev BACKUP_DIR"
    by (simp add: backup_file_path_def)
  then have "takeWhile (\<lambda>c. c \<noteq> CHR ''/'') (rev (backup_file_path db_name t)) =
      rev (backup_file_name db_name t)"
    using backup_file_name_no_slash [of db_name t] by (auto simp: takeWhile_tail)
  then show ?thesis by (simp add: path_name_def)
qed

text \<open>
  C7. For every database name and every valid creation time, the name of the artifact
  (which is also the name of its blob) is matched by the pattern of the remote sweep, the
  group the sweep extracts is the \<open>YYYYMMDD\<close> of the creation time, and \<open>strptime\<close> reads
  the creation date back from it, whatever the sanitized database name contains.
\<close>

theorem artifact_name_round_trip:
  assumes "valid_datetime t"
  shows "re_search (backup_file_name db_name t) = Some (strftime_date t) \<and>
         trailing_stamp (backup_file_name db_name t) (strftime_date t) \<and>
         blob_date (backup_file_name db_name t) = Some (date_of t) \<and>
         blob_date (path_name (backup_file_path db_name t)) = Some (date_of t)"
proof -
  have s: "re_search (backup_file_name db_name t) = Some (strftime_date t)"
    unfolding backup_file_name_def by (rule re_search_suffix) (rule stamp_match_at_stamp)
  then have b: "blob_date (backup_file_name db_name t) = Some (date_of t)"
    using assms by (simp add: blob_date_def strptime_strftime_date)
  from s have "trailing_stamp (backup_file_name db_name t) (strftime_date t)"
    by (simp add: re_search_iff)
  with s b show ?thesis by (simp add: path_name_backup_file_path)
qed

lemma fixed_digits_2: "fixed_digits 2 n = [digit_char (n div 10 mod 10), digit_char (n mod 10)]"
proof -
  have "fixed_digits (Suc (Suc 0)) n = [digit_char (n div 10 mod 10), digit_char (n mod 10)]"
    by simp
  then show ?thesis by (simp only: numeral_2_eq_2)
qed

lemma fixed_digits_4:
  "fixed_digits 4 n = [digit_char (n div 10 div 10 div 10 mod 10),
     digit_char (n div 10 div 10 mod 10), digit_char (n div 10 mod 10), digit_char (n mod 10)]"
proof -
  have "fixed_digits (Suc (Suc (Suc (Suc 0)))) n =
      [digit_char (n div 10 div 10 div 10 mod 10), digit_char (n div 10 div 10 mod 10),
       digit_char (n div 10 mod 10), digit_char (n mod 10)]"
    by simp
  moreover have "(4::nat) = Suc (Suc (Suc (Suc 0)))" by simp
  ultimately show ?thesis by (simp only:)
qed

lemma fixed_digits_6:
  "fixed_digits 6 n = [digit_char (n div 10 div 10 div 10 div 10 div 10 mod 10),
     digit_char (n div 10 div 10 div 10 div 10 mod 10),
     digit_char (n div 10 div 10 div 10 mod 10), digit_char (n div 10 div 10 mod 10),
     digit_char (n div 10 mod 10), digit_char (n mod 10)]"
proof -
  have "fixed_digits (Suc (Suc (Suc (Suc (Suc (Suc 0)))))) n =
      [digit_char (n div 10 div 10 div 10 div 10 div 10 mod 10),
       digit_char (n div 10 div 10 div 10 div 10 mod 10),
       digit_char (n div 10 div 10 div 10 mod 10), digit_char (n div 10 div 10 mod 10),
       digit_char (n div 10 mod 10), digit_char (n mod 10)]"
    by simp
  moreover have "(6::nat) = Suc (Suc (Suc (Suc (Suc (Suc 0)))))" by simp
  ultimately show ?thesis by (simp only:)
qed

lemma digit_chars:
  "digit_char 0 = CHR ''0''" "digit_char 1 = CHR ''1''" "digit_char 2 = CHR ''2''"
  "digit_char 3 = CHR ''3''" "digit_char 4 = CHR ''4''" "digit_char 5 = CHR ''5''"
  "digit_char 6 = CHR ''6''" "digit_char 7 = CHR ''7''" "digit_char 8 = CHR ''8''"
  "digit_char 9 = CHR ''9''" "digit_char (Suc 0) = CHR ''1''"
  by (simp_all add: digit_char_def char_of_def bit_0)

theorem artifact_name_round_trip_witness:
  "valid_datetime (dump_time working_env ''sales_2023_20200101_123456_1'') \<and>
   backup_file_name ''sales_2023_20200101_123456_1''
     (dump_time working_env ''sales_2023_20200101_123456_1'') =
     ''sales_2023_20200101_123456_1_20240601_030007_123456.sql.gz'' \<and>
   re_search ''sales_2023_20200101_123456_1_20240601_030007_123456.sql.gz'' = Some ''20240601'' \<and>
   blob_date ''sales_2023_20200101_123456_1_20240601_030007_123456.sql.gz'' =
     Some \<lparr>year = 2024, month = 6, day = 1, hour = 0, minute = 0, second = 0, microsecond = 0\<rparr>"
proof -
  let ?t = "dump_time working_env ''sales_2023_20200101_123456_1''"
  have v: "valid_datetime ?t"
    by (simp add: working_env_def valid_datetime_def days_in_month_def)
  have n: "backup_file_name ''sales_2023_20200101_123456_1'' ?t =
     ''sales_2023_20200101_123456_1_20240601_030007_123456.sql.gz''"
    by (simp add: backup_file_name_def sanitize_filename_def filename_safe_def is_letter_def
        is_digit_def code_point_def strftime_stamp_def strftime_date_def working_env_def
        fixed_digits_2 fixed_digits_4 fixed_digits_6 digit_chars)
  have d: "strftime_date ?t = ''20240601''" "date_of ?t =
      \<lparr>year = 2024, month = 6, day = 1, hour = 0, minute = 0, second = 0, microsecond = 0\<rparr>"
    by (simp_all add: strftime_date_def date_of_def working_env_def fixed_digits_2
        fixed_digits_4 digit_chars)
  from artifact_name_round_trip [OF v, of "''sales_2023_20200101_123456_1''"] v n d
  show ?thesis by simp
qed

subsection \<open>The remote retention sweep\<close>

lemma blob_date_iff:
  "blob_date name = Some d \<longleftrightarrow> (\<exists>g. trailing_stamp name g \<and> strptime_Ymd g = Some d)"
proof
  assume "blob_date name = Some d"
  then obtain g where "re_search name = Some g" "strptime_Ymd g = Some d"
    by (auto simp: blob_date_def split: option.splits)
  then show "\<exists>g. trailing_stamp name g \<and> strptime_Ymd g = Some d"
    using re_search_iff by blast
next
  assume "\<exists>g. trailing_stamp name g \<and> strptime_Ymd g = Some d"
  then obtain g where "re_search name = Some g" "strptime_Ymd g = Some d"
    using re_search_iff by blast
  then show "blob_date name = Some d" by (simp add: blob_date_def)
qed

lemma remote_due_blob_date:
  "remote_due c name \<longleftrightarrow> (case blob_date name of None \<Rightarrow> False | Some d \<Rightarrow> to_us d < c)"
proof (cases "blob_date name")
  case None
  then have "\<not> (\<exists>d. blob_date name = Some d)" by simp
  then have "\<not> remote_due c name"
    unfolding blob_date_iff remote_due_def by blast
  with None show ?thesis by simp
next
  case (Some d)
  have "remote_due c name \<longleftrightarrow> (\<exists>d'. blob_date name = Some d' \<and> to_us d' < c)"
    unfolding blob_date_iff remote_due_def by blast
  with Some show ?thesis by simp
qed

text \<open>Whatever the deletions answer, the loop removes only blobs that are due and
  touches nothing but the container.\<close>

lemma sweep_blobs_sound:
  "\<exists>D. D \<subseteq> {b \<in> set names. remote_due c b} \<and>
       blobs (snd (snd (sweep_blobs env c names (n, st)))) = filter (\<lambda>b. b \<notin> D) (blobs st) \<and>
       errors (snd (snd (sweep_blobs env c names (n, st)))) = errors st"
proof (induction names arbitrary: n st)
  case Nil
  show ?case by (intro exI [of _ "{}"]) simp
next
  case (Cons name rest)
  show ?case
  proof (cases "remote_due c name \<and> delete_blob env name = Deleted")
    case True
    then obtain d where d: "blob_date name = Some d" "to_us d < c"
      by (auto simp: remote_due_blob_date split: option.splits)
    from Cons.IH [of "n + 1" "remove_blob name st"]
    obtain D where D: "D \<subseteq> {b \<in> set rest. remote_due c b}"
      "blobs (snd (snd (sweep_blobs env c rest (n + 1, remove_blob name st)))) =
         filter (\<lambda>b. b \<notin> D) (filter (\<lambda>x. x \<noteq> name) (blobs st))"
      "errors (snd (snd (sweep_blobs env c rest (n + 1, remove_blob name st)))) = errors st"
      by auto
    show ?thesis
      using True d D
      by (intro exI [of _ "insert name D"]) (auto simp: conj_commute intro!: filter_cong)
  next
    case False
    from Cons.IH [of n st]
    obtain D where D: "D \<subseteq> {b \<in> set rest. remote_due c b}"
      "blobs (snd (snd (sweep_blobs env c rest (n, st)))) = filter (\<lambda>b. b \<notin> D) (blobs st)"
      "errors (snd (snd (sweep_blobs env c rest (n, st)))) = errors st"
      by auto
    show ?thesis
    proof (cases "remote_due c name")
      case due: True
      then obtain d where d: "blob_date name = Some d" "to_us d < c"
        by (auto simp: remote_due_blob_date split: option.splits)
      show ?thesis
      proof (cases "delete_blob env name")
        case Deleted
        with False due show ?thesis by simp
      next
        case DeleteValueError
        then show ?thesis using d D by (intro exI [of _ D]) auto
      next
        case (DeleteRaised msg)
        then show ?thesis using d by (intro exI [of _ "{}"]) simp
      qed
    next
      case notdue: False
      then have "sweep_blobs env c (name # rest) (n, st) = sweep_blobs env c rest (n, st)"
        by (auto simp: remote_due_blob_date split: option.splits)
      then show ?thesis using D by (intro exI [of _ D]) auto
    qed
  qed
qed

text \<open>When no deletion raises, the loop ends normally and has removed every due blob.\<close>

lemma sweep_blobs_complete:
  assumes "\<forall>b \<in> set names. delete_blob env b = Deleted"
  shows "sweep_blobs env c names (n, st) =
           (None, n + length (filter (remote_due c) names),
            st\<lparr>blobs := filter (\<lambda>b. \<not> (b \<in> set names \<and> remote_due c b)) (blobs st)\<rparr>)"
  using assms
proof (induction names arbitrary: n st)
  case Nil
  then show ?case by simp
next
  case (Cons name rest)
  then have IH: "sweep_blobs env c rest (n', st') =
           (None, n' + length (filter (remote_due c) rest),
            st'\<lparr>blobs := filter (\<lambda>b. \<not> (b \<in> set rest \<and> remote_due c b)) (blobs st')\<rparr>)"
    for n' st' by simp
  from Cons.prems have del: "delete_blob env name = Deleted" by simp
  show ?case
  proof (cases "remote_due c name")
    case True
    then obtain d where d: "blob_date name = Some d" "to_us d < c"
      by (auto simp: remote_due_blob_date split: option.splits)
    have "filter (\<lambda>b. \<not> (b \<in> set rest \<and> remote_due c b)) (filter (\<lambda>x. x \<noteq> name) (blobs st)) =
          filter (\<lambda>b. \<not> (b \<in> set (name # rest) \<and> remote_due c b)) (blobs st)"
      using True by (auto intro!: filter_cong)
    then show ?thesis using True d del
      by (simp add: IH remove_blob_def)
  next
    case False
    then have "sweep_blobs env c (name # rest) (n, st) = sweep_blobs env c rest (n, st)"
      by (auto simp: remote_due_blob_date split: option.splits)
    moreover have "filter (\<lambda>b. \<not> (b \<in> set rest \<and> remote_due c b)) (blobs st) =
          filter (\<lambda>b. \<not> (b \<in> set (name # rest) \<and> remote_due c b)) (blobs st)"
      using False by (auto intro!: filter_cong)
    ultimately show ?thesis using False by (simp add: IH)
  qed
qed

text \<open>
  C6. A blob is due when its name ends as the naming pattern says and the date in it, read
  by \<open>strptime\<close>, is strictly before now minus 365 days. The remote sweep never removes a
  blob that is not due, so a blob whose name does not parse stays; it adds no blob; and
  when the storage account is reachable and no deletion raises, the blobs removed are
  exactly the due ones, and the count returned is their number.
\<close>

theorem cleanup_old_backups_azure_deletes:
  "(b \<in> set (blobs st) \<and> b \<notin> set (blobs (snd (cleanup_old_backups_azure env st))) \<longrightarrow>
      (\<exists>g d. trailing_stamp b g \<and> strptime_Ymd g = Some d \<and>
             to_us d < to_us (now env) - RETENTION_DAYS * DAY_US)) \<and>
   set (blobs (snd (cleanup_old_backups_azure env st))) \<subseteq> set (blobs st) \<and>
   (credentials_configured env \<and> key_is_base64 env \<and> client_created env \<and>
    list_blobs_error env = None \<and> (\<forall>x \<in> set (blobs st). delete_blob env x = Deleted) \<longrightarrow>
      blobs (snd (cleanup_old_backups_azure env st)) =
        filter (\<lambda>x. \<not> remote_due (remote_cutoff env) x) (blobs st) \<and>
      fst (cleanup_old_backups_azure env st) =
        length (filter (remote_due (remote_cutoff env)) (blobs st)) \<and>
      errors (snd (cleanup_old_backups_azure env st)) = errors st)"
proof -
  let ?c = "remote_cutoff env"
  obtain r n st1 where sw: "sweep_blobs env ?c (blobs st) (0, st) = (r, n, st1)"
    by (metis surj_pair)
  from sweep_blobs_sound [of "blobs st" ?c env 0 st] sw
  obtain D where D: "D \<subseteq> {x \<in> set (blobs st). remote_due ?c x}"
    "blobs st1 = filter (\<lambda>x. x \<notin> D) (blobs st)"
    by auto
  have out: "blobs (snd (cleanup_old_backups_azure env st)) = blobs st \<or>
             blobs (snd (cleanup_old_backups_azure env st)) = blobs st1"
    using sw by (cases r) (auto simp: cleanup_old_backups_azure_def split: option.split)
  have only: "remote_due ?c b"
    if "b \<in> set (blobs st)" "b \<notin> set (blobs (snd (cleanup_old_backups_azure env st)))"
    using that out D by auto
  have sub: "set (blobs (snd (cleanup_old_backups_azure env st))) \<subseteq> set (blobs st)"
    using out D by auto
  have all: "blobs (snd (cleanup_old_backups_azure env st)) =
        filter (\<lambda>x. \<not> remote_due ?c x) (blobs st) \<and>
      fst (cleanup_old_backups_azure env st) = length (filter (remote_due ?c) (blobs st)) \<and>
      errors (snd (cleanup_old_backups_azure env st)) = errors st"
    if "credentials_configured env" "key_is_base64 env" "client_created env"
      "list_blobs_error env = None" "\<forall>x \<in> set (blobs st). delete_blob env x = Deleted"
  proof -
    have "filter (\<lambda>x. \<not> (x \<in> set (blobs st) \<and> remote_due ?c x)) (blobs st) =
          filter (\<lambda>x. \<not> remote_due ?c x) (blobs st)"
      by (auto intro!: filter_cong)
    then show ?thesis
      using that sweep_blobs_complete [OF that(5), of ?c 0 st]
      by (simp add: cleanup_old_backups_azure_def)
  qed
  from only sub all show ?thesis
    unfolding remote_due_def remote_cutoff_def by blast
qed

lemma remote_state_dates:
  "blob_date ''sales_20230101_120000_000001.sql.gz'' =
     Some \<lparr>year = 2023, month = 1, day = 1, hour = 0, minute = 0, second = 0, microsecond = 0\<rparr>"
  "blob_date ''malformed_backup.sql.gz'' = None"
  "blob_date ''sales_20240531_030007_000003.sql.gz'' =
     Some \<lparr>year = 2024, month = 5, day = 31, hour = 0, minute = 0, second = 0, microsecond = 0\<rparr>"
  by (simp_all add: blob_date_def stamp_match_at_def is_digit_def code_point_def
      strptime_Ymd_def int_of_digits_def digit_val_def days_in_month_def Let_def)

lemma remote_state_due:
  "remote_due (remote_cutoff working_env) ''sales_20230101_120000_000001.sql.gz''"
  "\<not> remote_due (remote_cutoff working_env) ''malformed_backup.sql.gz''"
  "\<not> remote_due (remote_cutoff working_env) ''sales_20240531_030007_000003.sql.gz''"
  by (simp_all add: remote_due_blob_date remote_state_dates working_env_cutoffs calendar_defs)

theorem cleanup_old_backups_azure_deletes_witness:
  "blobs (snd (cleanup_old_backups_azure working_env remote_state)) =
     [''malformed_backup.sql.gz'', ''sales_20240531_030007_000003.sql.gz''] \<and>
   fst (cleanup_old_backups_azure working_env remote_state) = 1 \<and>
   ''sales_20230101_120000_000001.sql.gz'' \<in> set (blobs remote_state) \<and>
   ''sales_20230101_120000_000001.sql.gz''
     \<notin> set (blobs (snd (cleanup_old_backups_azure working_env remote_state))) \<and>
   (\<exists>g d. trailing_stamp ''sales_20230101_120000_000001.sql.gz'' g \<and>
      strptime_Ymd g = Some d \<and>
      to_us d < to_us (now working_env) - RETENTION_DAYS * DAY_US)"
proof -
  have b: "blobs remote_state =
      [''sales_20230101_120000_000001.sql.gz'', ''malformed_backup.sql.gz'',
       ''sales_20240531_030007_000003.sql.gz'']"
    by (simp add: remote_state_def)
  have e: "credentials_configured working_env" "key_is_base64 working_env"
    "client_created working_env" "list_blobs_error working_env = None"
    "\<forall>x \<in> set (blobs remote_state). delete_blob working_env x = Deleted"
    by (simp_all add: working_env_def)
  note t = cleanup_old_backups_azure_deletes [of "''sales_20230101_120000_000001.sql.gz''"
      remote_state working_env]
  from t e have 1: "blobs (snd (cleanup_old_backups_azure working_env remote_state)) =
     [''malformed_backup.sql.gz'', ''sales_20240531_030007_000003.sql.gz'']"
    and 2: "fst (cleanup_old_backups_azure working_env remote_state) = 1"
    by (simp_all add: b remote_state_due)
  have 3: "''sales_20230101_120000_000001.sql.gz'' \<in> set (blobs remote_state)"
    and 4: "''sales_20230101_120000_000001.sql.gz''
     \<notin> set (blobs (snd (cleanup_old_backups_azure working_env remote_state)))"
    by (simp_all add: b 1)
  from t 3 4 have "\<exists>g d. trailing_stamp ''sales_20230101_120000_000001.sql.gz'' g \<and>
      strptime_Ymd g = Some d \<and>
      to_us d < to_us (now working_env) - RETENTION_DAYS * DAY_US"
    by blast
  with 1 2 3 4 show ?thesis by blast
qed

end
